theory Spec2Isabelle
  imports Main "HOL-Library.AList"
begin

section \<open>Python values\<close>

text \<open>
  The records fetched from Odoo are decoded JSON: dynamically typed Python values.
  \<open>PNone\<close> is Python's \<open>None\<close>; a float is kept as mantissa and binary exponent,
  of which only "is it zero" is ever inspected (truthiness).  A dict is an association
  list read through \<open>map_of\<close>.
\<close>

datatype pyval =
    PNone
  | PBool bool
  | PInt int
  | PFloat int int
  | PStr string
  | PList "pyval list"
  | PDict "(string \<times> pyval) list"

type_synonym pydict = "(string \<times> pyval) list"

text \<open>Exceptions that the modelled code can raise or let through.\<close>

datatype exn =
    KeyError
  | TypeError
  | DataError
  | IntegrityError
  | HTTPStatusError
  | ConnectionError
  | JSONDecodeError
  | ValueError
  | RecursionError

text \<open>Timestamps (\<open>datetime\<close> objects) are microseconds on some fixed time line.\<close>

type_synonym datetime = int

text \<open>Python truthiness, as used by \<open>if x\<close>, \<open>not x\<close> and \<open>x or y\<close>.\<close>

fun truthy :: "pyval \<Rightarrow> bool" where
  "truthy PNone = False"
| "truthy (PBool b) = b"
| "truthy (PInt i) = (i \<noteq> 0)"
| "truthy (PFloat m e) = (m \<noteq> 0)"
| "truthy (PStr s) = (s \<noteq> [])"
| "truthy (PList xs) = (xs \<noteq> [])"
| "truthy (PDict d) = (d \<noteq> [])"

definition py_or :: "pyval \<Rightarrow> pyval \<Rightarrow> pyval" where
  "py_or a b = (if truthy a then a else b)"

text \<open>\<open>d.get(k)\<close> and \<open>d.get(k, default)\<close>.\<close>

definition dict_get :: "pydict \<Rightarrow> string \<Rightarrow> pyval" where
  "dict_get d k = (case map_of d k of None \<Rightarrow> PNone | Some v \<Rightarrow> v)"

definition dict_get_default :: "pydict \<Rightarrow> string \<Rightarrow> pyval \<Rightarrow> pyval" where
  "dict_get_default d k dflt = (case map_of d k of None \<Rightarrow> dflt | Some v \<Rightarrow> v)"

section \<open>Remote source client: pagination (odoo\_client.py)\<close>

text \<open>
  \<open>get_contacts(limit, offset)\<close> and \<open>get_invoices(limit, offset)\<close> perform the HTTP
  exchange with Odoo.  Their outcome is a parameter of the model: a page fetcher takes
  the state of the outside world (server and client session) together with \<open>limit\<close> and
  \<open>offset\<close>, and gives the page it returns or the exception it raises, and the next
  state of the world.
\<close>

type_synonym 's page_fetcher = "'s \<Rightarrow> nat \<Rightarrow> nat \<Rightarrow> (exn + pydict list) \<times> 's"

text \<open>
  The \<open>while True\<close> loop of \<open>get_all_contacts\<close> and of \<open>get_all_invoices\<close> (the two
  bodies are the same text up to the page fetcher called).  Nothing in the code bounds
  the number of rounds, so the loop is a partial function: \<open>None\<close> is "never returns".
\<close>

partial_function (option) get_all_loop ::
  "'s page_fetcher \<Rightarrow> nat \<Rightarrow> 's \<Rightarrow> nat \<Rightarrow> pydict list \<Rightarrow> ((exn + pydict list) \<times> 's) option"
where
  "get_all_loop get_page limit w offset all_records =
     (case get_page w limit offset of
        (Inl e, w') \<Rightarrow> Some (Inl e, w')
      | (Inr page, w') \<Rightarrow>
          if page = [] then Some (Inr all_records, w')
          else if length page < limit then Some (Inr (all_records @ page), w')
          else get_all_loop get_page limit w' (offset + limit) (all_records @ page))"

definition get_all_contacts ::
  "'s page_fetcher \<Rightarrow> 's \<Rightarrow> ((exn + pydict list) \<times> 's) option" where
  "get_all_contacts get_contacts w = get_all_loop get_contacts 100 w 0 []"

definition get_all_invoices ::
  "'s page_fetcher \<Rightarrow> 's \<Rightarrow> ((exn + pydict list) \<times> 's) option" where
  "get_all_invoices get_invoices w = get_all_loop get_invoices 100 w 0 []"

text \<open>
  A remote source that holds the fixed list \<open>records\<close> and answers every page request
  with the slice asked for.  Its state is the list of offsets requested so far.
\<close>

definition static_remote :: "pydict list \<Rightarrow> (nat list) page_fetcher" where
  "static_remote records w limit offset =
     (Inr (take limit (drop offset records)), w @ [offset])"

definition demo_record :: "nat \<Rightarrow> pydict" where
  "demo_record i = [(''id'', PInt (int i)), (''name'', PStr ''n'')]"

section \<open>Local store (models.py)\<close>

text \<open>
  A row of a mirrored table: the remote key \<open>odoo_id\<close> (unique, not null), the columns
  that are copied from the remote record (\<open>attrs\<close>), and the two bookkeeping
  timestamps.  The surrogate primary key \<open>id\<close> is assigned by the database engine and
  is read nowhere in the code; it is left out.  A column holds the Python value that was
  assigned to the attribute: what an engine does with a value of another type than the
  column's is outside the model.
\<close>

record 'a row =
  odoo_id :: int
  attrs :: 'a
  created_at :: "datetime option"
  updated_at :: "datetime option"

text \<open>The copied columns of \<open>Contact\<close>.\<close>

record contact_attrs =
  name :: pyval
  email :: pyval
  phone :: pyval
  write_date :: "datetime option"

text \<open>The copied columns of \<open>Invoice\<close>.\<close>

record invoice_attrs =
  inv_name :: pyval
  inv_move_type :: pyval
  inv_invoice_date :: "datetime option"
  inv_partner_id :: pyval
  inv_partner_name :: pyval
  inv_amount_total :: pyval
  inv_amount_residual :: pyval
  inv_state :: pyval
  inv_currency_id :: pyval
  inv_currency_name :: pyval
  inv_write_date :: "datetime option"
  inv_create_date :: "datetime option"

section \<open>The persistence session\<close>

text \<open>
  The SQLAlchemy session over one table.  \<open>committed\<close> is the table as other
  transactions see it, \<open>tx\<close> the table as seen inside the open transaction, \<open>pending\<close>
  the objects given to \<open>db.add\<close> and not yet flushed, \<open>ticks\<close> the number of calls of
  \<open>datetime.utcnow\<close> so far (the clock is a parameter: \<open>utcnow n\<close> is what the \<open>n\<close>-th
  call returns), and \<open>bulk_deletes\<close> the key sets of the bulk DELETE statements issued.

  \<open>app/database.py\<close>, which configures \<open>SessionLocal\<close>, is not among the sources: whether
  the session flushes before each query is the parameter \<open>af\<close> (autoflush).
\<close>

record 'a session =
  committed :: "'a row list"
  tx :: "'a row list"
  pending :: "'a row list"
  ticks :: nat
  bulk_deletes :: "int set list"

definition SessionLocal :: "'a row list \<Rightarrow> 'a session" where
  "SessionLocal table =
     \<lparr>committed = table, tx = table, pending = [], ticks = 0, bulk_deletes = []\<rparr>"

text \<open>The column defaults \<open>default=datetime.utcnow\<close>, filled in when a row is inserted.\<close>

fun stamp :: "(nat \<Rightarrow> datetime) \<Rightarrow> nat \<Rightarrow> 'a row list \<Rightarrow> 'a row list" where
  "stamp utcnow n [] = []"
| "stamp utcnow n (x # xs) =
     x\<lparr>created_at := Some (utcnow n), updated_at := Some (utcnow (Suc n))\<rparr>
       # stamp utcnow (n + 2) xs"

text \<open>
  Flushing issues the INSERTs of the pending objects; the unique index on \<open>odoo_id\<close>
  rejects a key that is already in the table or that occurs twice.
\<close>

definition flush :: "(nat \<Rightarrow> datetime) \<Rightarrow> 'a session \<Rightarrow> (exn \<times> 'a session) + 'a session" where
  "flush utcnow s =
     (if distinct (map odoo_id (pending s))
         \<and> set (map odoo_id (pending s)) \<inter> set (map odoo_id (tx s)) = {}
      then Inr (s\<lparr>tx := tx s @ stamp utcnow (ticks s) (pending s), pending := [],
                   ticks := ticks s + 2 * length (pending s)\<rparr>)
      else Inl (IntegrityError, s))"

definition autoflush ::
  "bool \<Rightarrow> (nat \<Rightarrow> datetime) \<Rightarrow> 'a session \<Rightarrow> (exn \<times> 'a session) + 'a session" where
  "autoflush af utcnow s = (if af then flush utcnow s else Inr s)"

text \<open>\<open>db.query(M).filter(M.odoo_id.in_(ids)).delete(synchronize_session=False)\<close>\<close>

definition bulk_delete ::
  "bool \<Rightarrow> (nat \<Rightarrow> datetime) \<Rightarrow> int set \<Rightarrow> 'a session \<Rightarrow> (exn \<times> 'a session) + 'a session" where
  "bulk_delete af utcnow ids s =
     (case autoflush af utcnow s of
        Inl e \<Rightarrow> Inl e
      | Inr s1 \<Rightarrow> Inr (s1\<lparr>tx := filter (\<lambda>x. odoo_id x \<notin> ids) (tx s1),
                           bulk_deletes := bulk_deletes s1 @ [ids]\<rparr>))"

definition commit :: "(nat \<Rightarrow> datetime) \<Rightarrow> 'a session \<Rightarrow> (exn \<times> 'a session) + 'a session" where
  "commit utcnow s =
     (case flush utcnow s of
        Inl e \<Rightarrow> Inl e
      | Inr s1 \<Rightarrow> Inr (s1\<lparr>committed := tx s1\<rparr>))"

definition rollback :: "'a session \<Rightarrow> 'a session" where
  "rollback s = s\<lparr>tx := committed s, pending := []\<rparr>"

text \<open>Closing a session discards whatever was not committed.\<close>

definition close :: "'a session \<Rightarrow> 'a session" where
  "close s = s\<lparr>tx := committed s, pending := []\<rparr>"

section \<open>Field mapping (tasks.py)\<close>

definition odoo_value :: "pyval \<Rightarrow> pyval" where
  "odoo_value v = (if v = PBool False then PNone else v)"

text \<open>\<open>s.replace("Z", "+00:00")\<close>\<close>

definition replace_Z :: "string \<Rightarrow> string" where
  "replace_Z s = concat (map (\<lambda>c. if c = CHR ''Z'' then ''+00:00'' else [c]) s)"

text \<open>
  \<open>datetime.fromisoformat\<close> is a parameter (\<open>None\<close> when it raises).  A truthy value
  that is not a string has no \<open>replace\<close> method: the \<open>AttributeError\<close> is swallowed by
  the same \<open>except Exception\<close>.
\<close>

definition parse_write_date :: "(string \<Rightarrow> datetime option) \<Rightarrow> pyval \<Rightarrow> datetime option" where
  "parse_write_date fromisoformat v =
     (if truthy v
      then (case v of PStr s \<Rightarrow> fromisoformat (replace_Z s) | _ \<Rightarrow> None)
      else None)"

definition parse_datetime :: "(string \<Rightarrow> datetime option) \<Rightarrow> pyval \<Rightarrow> datetime option" where
  "parse_datetime fromisoformat date_str =
     (if \<not> truthy date_str \<or> date_str = PBool False then None
      else (case date_str of PStr s \<Rightarrow> fromisoformat (replace_Z s) | _ \<Rightarrow> None))"

fun extract_tuple_values :: "pyval \<Rightarrow> pyval \<times> pyval" where
  "extract_tuple_values (PList (a # b # rest)) = (a, b)"
| "extract_tuple_values (PList [a]) = (a, PNone)"
| "extract_tuple_values v = (PNone, PNone)"

text \<open>The values that both branches (update and insert) of the contact loop assign.\<close>

definition contact_mapper :: "(string \<Rightarrow> datetime option) \<Rightarrow> pydict \<Rightarrow> contact_attrs" where
  "contact_mapper fromisoformat odoo_contact =
     \<lparr>name = py_or (dict_get odoo_contact ''name'') (PStr []),
      email = odoo_value (dict_get odoo_contact ''email''),
      phone = odoo_value (dict_get odoo_contact ''phone''),
      write_date = parse_write_date fromisoformat (dict_get odoo_contact ''write_date'')\<rparr>"

text \<open>
  The values that both branches of the invoice loop assign.  \<open>odoo_value\<close> is defined
  in \<open>_sync_invoices_async\<close> too, and called nowhere in it.
\<close>

definition invoice_mapper :: "(string \<Rightarrow> datetime option) \<Rightarrow> pydict \<Rightarrow> invoice_attrs" where
  "invoice_mapper fromisoformat odoo_invoice =
     \<lparr>inv_name = py_or (dict_get odoo_invoice ''name'') (PStr []),
      inv_move_type = py_or (dict_get odoo_invoice ''move_type'') (PStr ''out_invoice''),
      inv_invoice_date = parse_datetime fromisoformat (dict_get odoo_invoice ''invoice_date''),
      inv_partner_id = fst (extract_tuple_values (dict_get odoo_invoice ''partner_id'')),
      inv_partner_name = snd (extract_tuple_values (dict_get odoo_invoice ''partner_id'')),
      inv_amount_total = dict_get odoo_invoice ''amount_total'',
      inv_amount_residual = dict_get odoo_invoice ''amount_residual'',
      inv_state = dict_get odoo_invoice ''state'',
      inv_currency_id = fst (extract_tuple_values (dict_get odoo_invoice ''currency_id'')),
      inv_currency_name = snd (extract_tuple_values (dict_get odoo_invoice ''currency_id'')),
      inv_write_date = parse_datetime fromisoformat (dict_get odoo_invoice ''write_date''),
      inv_create_date = parse_datetime fromisoformat (dict_get odoo_invoice ''create_date'')\<rparr>"

section \<open>Reconciliation (tasks.py)\<close>

text \<open>
  \<open>{contact["id"] for contact in odoo_contacts}\<close>: a record without the key raises
  \<open>KeyError\<close>, a list or dict as key is unhashable.
\<close>

fun fetched_odoo_ids :: "pydict list \<Rightarrow> exn + pyval list" where
  "fetched_odoo_ids [] = Inr []"
| "fetched_odoo_ids (r # rs) =
     (case map_of r ''id'' of
        None \<Rightarrow> Inl KeyError
      | Some (PList l) \<Rightarrow> Inl TypeError
      | Some (PDict d) \<Rightarrow> Inl TypeError
      | Some v \<Rightarrow> (case fetched_odoo_ids rs of Inl e \<Rightarrow> Inl e | Inr vs \<Rightarrow> Inr (v # vs)))"

text \<open>
  \<open>odoo_contact["id"]\<close> as a key of the Integer column \<open>odoo_id\<close>.  The ids that Odoo
  returns are integers.  What the engine does with a key that is not one (it may
  convert it, or refuse it) is not in the source: the model takes the column to be
  strictly typed, and such a key is refused by the query that looks it up.
\<close>

definition record_id :: "pydict \<Rightarrow> exn + int" where
  "record_id r =
     (case map_of r ''id'' of
        None \<Rightarrow> Inl KeyError
      | Some (PInt i) \<Rightarrow> Inr i
      | Some v \<Rightarrow> Inl DataError)"

fun int_ids :: "pyval list \<Rightarrow> int list" where
  "int_ids [] = []"
| "int_ids (PInt i # vs) = i # int_ids vs"
| "int_ids (v # vs) = int_ids vs"

text \<open>Assigning to the attributes of the object that \<open>.first()\<close> returned.\<close>

fun update_first :: "int \<Rightarrow> ('a row \<Rightarrow> 'a row) \<Rightarrow> 'a row list \<Rightarrow> 'a row list" where
  "update_first i f [] = []"
| "update_first i f (x # xs) =
     (if odoo_id x = i then f x # xs else x # update_first i f xs)"

text \<open>
  One round of the \<open>for\<close> loop "insert or update", on the session and the two
  counters.  \<open>mapper\<close> computes the copied columns of a remote record; the loop of the
  contacts and that of the invoices differ in nothing else.  The query
  \<open>db.query(M).filter(M.odoo_id == odoo_id).first()\<close> flushes first when the session
  autoflushes.
\<close>

definition upsert ::
  "bool \<Rightarrow> (nat \<Rightarrow> datetime) \<Rightarrow> (pydict \<Rightarrow> 'a) \<Rightarrow> pydict \<Rightarrow> 'a session \<times> nat \<times> nat
     \<Rightarrow> (exn \<times> 'a session) + ('a session \<times> nat \<times> nat)" where
  "upsert af utcnow mapper r st =
     (case st of (s, n_inserted, n_updated) \<Rightarrow>
       (case record_id r of
          Inl e \<Rightarrow> Inl (e, s)
        | Inr i \<Rightarrow>
           (case autoflush af utcnow s of
              Inl e \<Rightarrow> Inl e
            | Inr s1 \<Rightarrow>
               (case find (\<lambda>x. odoo_id x = i) (tx s1) of
                  Some existing \<Rightarrow>
                    Inr (s1\<lparr>tx := update_first i
                              (\<lambda>x. x\<lparr>attrs := mapper r, updated_at := Some (utcnow (ticks s1))\<rparr>)
                              (tx s1),
                            ticks := Suc (ticks s1)\<rparr>,
                         n_inserted, Suc n_updated)
                | None \<Rightarrow>
                    Inr (s1\<lparr>pending := pending s1 @
                              [\<lparr>odoo_id = i, attrs = mapper r, created_at = None,
                                updated_at = None\<rparr>]\<rparr>,
                         Suc n_inserted, n_updated)))))"

text \<open>The loop: the rounds in the order of the fetched list, stopped by the first raise.\<close>

fun upsert_loop ::
  "bool \<Rightarrow> (nat \<Rightarrow> datetime) \<Rightarrow> (pydict \<Rightarrow> 'a) \<Rightarrow> pydict list \<Rightarrow> 'a session \<times> nat \<times> nat
     \<Rightarrow> (exn \<times> 'a session) + ('a session \<times> nat \<times> nat)" where
  "upsert_loop af utcnow mapper [] st = Inr st"
| "upsert_loop af utcnow mapper (r # rs) st =
     (case upsert af utcnow mapper r st of
        Inl e \<Rightarrow> Inl e
      | Inr st' \<Rightarrow> upsert_loop af utcnow mapper rs st')"

text \<open>
  What a run returns: the dict with only a message ("No contacts found in Odoo"), or
  the dict with the four counts.
\<close>

record summary =
  inserted :: nat
  updated :: nat
  deleted :: nat
  total :: nat

datatype sync_result = NoRecordsFound | Synced summary

text \<open>The body of the \<open>try\<close> block once the fetch has returned \<open>odoo_records\<close>.\<close>

definition sync_rows ::
  "bool \<Rightarrow> (nat \<Rightarrow> datetime) \<Rightarrow> (pydict \<Rightarrow> 'a) \<Rightarrow> pydict list \<Rightarrow> 'a session
     \<Rightarrow> (exn \<times> 'a session) + (sync_result \<times> 'a session)" where
  "sync_rows af utcnow mapper odoo_records db =
     (if odoo_records = [] then Inr (NoRecordsFound, db)
      else
        let existing_odoo_ids = set (map odoo_id (tx db)) in
        (case fetched_odoo_ids odoo_records of
           Inl e \<Rightarrow> Inl (e, db)
         | Inr fetched \<Rightarrow>
            (case upsert_loop af utcnow mapper odoo_records (db, 0, 0) of
               Inl e \<Rightarrow> Inl e
             | Inr (db1, n_inserted, n_updated) \<Rightarrow>
                let to_delete = existing_odoo_ids - set (int_ids fetched) in
                (case (if to_delete \<noteq> {} then bulk_delete af utcnow to_delete db1 else Inr db1) of
                   Inl e \<Rightarrow> Inl e
                 | Inr db2 \<Rightarrow>
                    (case commit utcnow db2 of
                       Inl e \<Rightarrow> Inl e
                     | Inr db3 \<Rightarrow>
                        Inr (Synced \<lparr>inserted = n_inserted, updated = n_updated,
                                     deleted = card to_delete, total = length odoo_records\<rparr>,
                             db3))))))"

text \<open>
  \<open>try: ... except Exception: db.rollback(); raise  finally: db.close()\<close> around a fetch
  outcome.  The result is what the coroutine returns or raises, the world after the
  fetch, and the session as it is left.
\<close>

definition run_sync ::
  "bool \<Rightarrow> (nat \<Rightarrow> datetime) \<Rightarrow> (pydict \<Rightarrow> 'a) \<Rightarrow> ((exn + pydict list) \<times> 's) option
     \<Rightarrow> 'a row list \<Rightarrow> ((exn + sync_result) \<times> 's \<times> 'a session) option" where
  "run_sync af utcnow mapper fetched table =
     (let db = SessionLocal table in
      case fetched of
        None \<Rightarrow> None
      | Some (Inl e, w') \<Rightarrow> Some (Inl e, w', close (rollback db))
      | Some (Inr odoo_records, w') \<Rightarrow>
         (case sync_rows af utcnow mapper odoo_records db of
            Inl (e, db') \<Rightarrow> Some (Inl e, w', close (rollback db'))
          | Inr (res, db') \<Rightarrow> Some (Inr res, w', close db')))"

definition sync_contacts_async ::
  "'s page_fetcher \<Rightarrow> bool \<Rightarrow> (nat \<Rightarrow> datetime) \<Rightarrow> (string \<Rightarrow> datetime option) \<Rightarrow> 's
     \<Rightarrow> contact_attrs row list \<Rightarrow> ((exn + sync_result) \<times> 's \<times> contact_attrs session) option" where
  "sync_contacts_async get_contacts af utcnow fromisoformat w table =
     run_sync af utcnow (contact_mapper fromisoformat) (get_all_contacts get_contacts w) table"

definition sync_invoices_async ::
  "'s page_fetcher \<Rightarrow> bool \<Rightarrow> (nat \<Rightarrow> datetime) \<Rightarrow> (string \<Rightarrow> datetime option) \<Rightarrow> 's
     \<Rightarrow> invoice_attrs row list \<Rightarrow> ((exn + sync_result) \<times> 's \<times> invoice_attrs session) option" where
  "sync_invoices_async get_invoices af utcnow fromisoformat w table =
     run_sync af utcnow (invoice_mapper fromisoformat) (get_all_invoices get_invoices w) table"

text \<open>
  For stating what a run leaves in the table: the last fetched record with key \<open>i\<close>,
  and a row without its \<open>updated_at\<close> stamp.
\<close>

definition last_record :: "pydict list \<Rightarrow> int \<Rightarrow> pydict option" where
  "last_record rs i = find (\<lambda>r. record_id r = Inr i) (rev rs)"

definition clear_updated :: "'a row \<Rightarrow> 'a row" where
  "clear_updated x = x\<lparr>updated_at := None\<rparr>"

text \<open>
  For the proofs: the keys and copied columns of all rows a session holds, and the
  statement that (when no key occurs twice) each row carries the columns of the last
  record processed with its key.
\<close>

definition key_attrs :: "'a session \<Rightarrow> (int \<times> 'a) list" where
  "key_attrs s = map (\<lambda>x. (odoo_id x, attrs x)) (tx s @ pending s)"

definition attrs_current :: "(pydict \<Rightarrow> 'a) \<Rightarrow> pydict list \<Rightarrow> 'a session \<Rightarrow> bool" where
  "attrs_current mapper done s =
     (distinct (map fst (key_attrs s)) \<longrightarrow>
      (\<forall>p \<in> set (key_attrs s). \<forall>r. last_record done (fst p) = Some r \<longrightarrow> snd p = mapper r))"

text \<open>
  For comparing two runs.  What a row looks like after the loop, its \<open>updated_at\<close>
  stamp apart; a row without its two stamps; two sessions that hold the same rows, the stamps apart;
  and two outcomes of a session operation that both raise, or both return such sessions
  (and the same counters).
\<close>

definition refreshed :: "(pydict \<Rightarrow> 'a) \<Rightarrow> pydict list \<Rightarrow> 'a row \<Rightarrow> 'a row" where
  "refreshed mapper rs x =
     (case last_record rs (odoo_id x) of
        None \<Rightarrow> clear_updated x
      | Some r \<Rightarrow> clear_updated (x\<lparr>attrs := mapper r\<rparr>))"

definition erase_stamps :: "'a row \<Rightarrow> 'a row" where
  "erase_stamps x = x\<lparr>created_at := None, updated_at := None\<rparr>"

definition same_rows :: "'a session \<Rightarrow> 'a session \<Rightarrow> bool" where
  "same_rows s t \<longleftrightarrow>
     map erase_stamps (tx s) = map erase_stamps (tx t) \<and>
     map erase_stamps (pending s) = map erase_stamps (pending t)"

definition sim_result ::
  "(exn \<times> 'a session) + 'a session \<Rightarrow> (exn \<times> 'a session) + 'a session \<Rightarrow> bool" where
  "sim_result a b =
     (case a of
        Inl e \<Rightarrow> (case b of Inl e' \<Rightarrow> True | Inr t \<Rightarrow> False)
      | Inr s \<Rightarrow> (case b of Inl e' \<Rightarrow> False | Inr t \<Rightarrow> same_rows s t))"

definition sim_counted ::
  "(exn \<times> 'a session) + ('a session \<times> nat \<times> nat)
     \<Rightarrow> (exn \<times> 'a session) + ('a session \<times> nat \<times> nat) \<Rightarrow> bool" where
  "sim_counted a b =
     (case a of
        Inl e \<Rightarrow> (case b of Inl e' \<Rightarrow> True | Inr t \<Rightarrow> False)
      | Inr s \<Rightarrow> (case b of Inl e' \<Rightarrow> False
                  | Inr t \<Rightarrow> same_rows (fst s) (fst t) \<and> snd s = snd t))"

text \<open>Stand-ins for the clock and for \<open>datetime.fromisoformat\<close>, and sample data.\<close>

definition demo_utcnow :: "nat \<Rightarrow> datetime" where
  "demo_utcnow n = 1000 + int n"

definition demo_fromisoformat :: "string \<Rightarrow> datetime option" where
  "demo_fromisoformat s = (if s = ''2024-05-01T10:00:00+00:00'' then Some 500 else None)"

definition demo_contact_row :: "int \<Rightarrow> contact_attrs row" where
  "demo_contact_row i =
     \<lparr>odoo_id = i,
      attrs = \<lparr>name = PStr ''old'', email = PNone, phone = PNone, write_date = None\<rparr>,
      created_at = Some 1, updated_at = Some 1\<rparr>"

definition demo_contact :: "int \<Rightarrow> pydict" where
  "demo_contact i =
     [(''id'', PInt i), (''name'', PStr ''Ada''), (''email'', PBool False),
      (''write_date'', PStr ''2024-05-01T10:00:00Z'')]"

section \<open>Dynamic scheduler (scheduler.py)\<close>

text \<open>
  The constructors of the Celery library are parameters: each gives \<open>None\<close> when it
  raises (a crontab pattern that does not parse, for one).  \<open>'sch\<close> is the type of the
  library's schedules, \<open>'e\<close> that of its schedule entries.
\<close>

record ('sch, 'e) celery =
  lib_crontab :: "pyval \<Rightarrow> pyval \<Rightarrow> pyval \<Rightarrow> pyval \<Rightarrow> pyval \<Rightarrow> 'sch option"
  lib_schedule :: "pyval \<Rightarrow> 'sch option"
  lib_ScheduleEntry :: "string \<Rightarrow> pyval \<Rightarrow> 'sch \<Rightarrow> pyval \<Rightarrow> pyval \<Rightarrow> pyval \<Rightarrow> 'e option"

text \<open>The lines written to \<open>self.logger\<close>, one constructor per logging statement.\<close>

datatype log_record =
    Debug_tick_elapsed int
  | Debug_tick_no_sync
  | Info_syncing
  | Info_removing string
  | Error_parse string
  | Info_added string
  | Error_add string
  | Info_synced "string list"
  | Error_sync exn


text \<open>
  The scheduler's own state: \<open>self.schedule\<close> (the execution plan, a dict in insertion
  order), \<open>self.last_sync\<close>, \<open>self.sync_interval\<close> (seconds) and what was logged.
\<close>

record 'e scheduler =
  schedule :: "(string \<times> 'e) list"
  last_sync :: "datetime option"
  sync_interval :: int
  logger :: "log_record list"

text \<open>
  The body of the \<open>try\<close> block of \<open>_add_or_update_task\<close> up to the entry it builds;
  \<open>None\<close> when any statement of it raises.  A config that is not a dict has no \<open>get\<close>;
  a dict without \<open>"task"\<close> raises \<open>KeyError\<close>.
\<close>

definition build_entry :: "('sch, 'e) celery \<Rightarrow> string \<Rightarrow> pyval \<Rightarrow> 'e option" where
  "build_entry lib task_name task_config =
     (case task_config of
        PDict cfg \<Rightarrow>
          (case (if dict_get_default cfg ''schedule_type'' (PStr ''interval'') = PStr ''crontab''
                 then lib_crontab lib
                        (dict_get_default cfg ''minute'' (PStr ''*''))
                        (dict_get_default cfg ''hour'' (PStr ''*''))
                        (dict_get_default cfg ''day_of_week'' (PStr ''*''))
                        (dict_get_default cfg ''day_of_month'' (PStr ''*''))
                        (dict_get_default cfg ''month_of_year'' (PStr ''*''))
                 else lib_schedule lib (dict_get_default cfg ''interval_seconds'' (PInt 300))) of
             None \<Rightarrow> None
           | Some task_schedule \<Rightarrow>
               (case map_of cfg ''task'' of
                  None \<Rightarrow> None
                | Some task \<Rightarrow>
                    lib_ScheduleEntry lib task_name task task_schedule
                      (dict_get_default cfg ''args'' (PList []))
                      (dict_get_default cfg ''kwargs'' (PDict []))
                      (dict_get_default cfg ''options'' (PDict []))))
      | _ \<Rightarrow> None)"

definition add_or_update_task ::
  "('sch, 'e) celery \<Rightarrow> string \<Rightarrow> pyval \<Rightarrow> 'e scheduler \<Rightarrow> 'e scheduler" where
  "add_or_update_task lib task_name task_config self =
     (case build_entry lib task_name task_config of
        Some entry \<Rightarrow>
          self\<lparr>schedule := AList.update task_name entry (schedule self),
               logger := logger self @ [Info_added task_name]\<rparr>
      | None \<Rightarrow> self\<lparr>logger := logger self @ [Error_add task_name]\<rparr>)"

text \<open>One round of the loop "remove tasks that are no longer in Redis".\<close>

definition remove_task :: "string \<Rightarrow> 'e scheduler \<Rightarrow> 'e scheduler" where
  "remove_task task_name self =
     self\<lparr>schedule := AList.delete task_name (schedule self),
          logger := logger self @ [Info_removing task_name]\<rparr>"

text \<open>
  One round of the loop "add or update tasks from Redis".  \<open>json.loads\<close> is a
  parameter: the value it returns, or the exception it raises.
  \<open>except json.JSONDecodeError\<close> catches that exception and no other
  (\<open>RecursionError\<close> on a deeply nested text, plain \<open>ValueError\<close> on an integer of too
  many digits): any other one leaves the round, with the scheduler as it is then.
  \<open>_add_or_update_task\<close> catches whatever its own body raises.
\<close>

definition load_task ::
  "('sch, 'e) celery \<Rightarrow> (string \<Rightarrow> exn + pyval) \<Rightarrow> string \<times> string \<Rightarrow> 'e scheduler
     \<Rightarrow> (exn \<times> 'e scheduler) + 'e scheduler" where
  "load_task lib loads item self =
     (case loads (snd item) of
        Inr task_config \<Rightarrow> Inr (add_or_update_task lib (fst item) task_config self)
      | Inl e \<Rightarrow>
          (if e = JSONDecodeError
           then Inr (self\<lparr>logger := logger self @ [Error_parse (fst item)]\<rparr>)
           else Inl (e, self)))"

text \<open>The loop: the rounds in the order of the dict, left by the first exception that
  a round does not catch.\<close>

fun load_tasks ::
  "('sch, 'e) celery \<Rightarrow> (string \<Rightarrow> exn + pyval) \<Rightarrow> (string \<times> string) list \<Rightarrow> 'e scheduler
     \<Rightarrow> (exn \<times> 'e scheduler) + 'e scheduler" where
  "load_tasks lib loads [] self = Inr self"
| "load_tasks lib loads (item # items) self =
     (case load_task lib loads item self of
        Inl x \<Rightarrow> Inl x
      | Inr self' \<Rightarrow> load_tasks lib loads items self')"

text \<open>
  The throttle: \<open>self.last_sync and (now - self.last_sync).total_seconds() < self.sync_interval\<close>,
  with times in microseconds.
\<close>

definition throttled :: "'e scheduler \<Rightarrow> datetime \<Rightarrow> bool" where
  "throttled self now =
     (case last_sync self of
        None \<Rightarrow> False
      | Some t \<Rightarrow> now - t < sync_interval self * 1000000)"

text \<open>
  \<open>now\<close> is what \<open>datetime.now()\<close> returns and \<open>hgetall\<close> what the read of the Redis
  hash returns (the dict, in its iteration order) or raises.  The set difference of the
  first loop is walked in the order of the plan.  An exception that leaves the second
  loop reaches the outer \<open>except Exception\<close> like one of the read: the removals and the
  rounds done so far stay (the plan is changed in place), \<open>last_sync\<close> is not assigned.
\<close>

definition sync_schedule_from_redis ::
  "('sch, 'e) celery \<Rightarrow> (string \<Rightarrow> exn + pyval) \<Rightarrow> datetime \<Rightarrow> exn + (string \<times> string) list
     \<Rightarrow> 'e scheduler \<Rightarrow> 'e scheduler" where
  "sync_schedule_from_redis lib loads now hgetall self =
     (if throttled self now then self
      else
        let self1 = self\<lparr>logger := logger self @ [Info_syncing]\<rparr> in
        (case hgetall of
           Inl e \<Rightarrow> self1\<lparr>logger := logger self1 @ [Error_sync e]\<rparr>
         | Inr schedule_data \<Rightarrow>
            let current_task_names = map fst (schedule self1);
                redis_task_names = set (map fst schedule_data);
                self2 = fold remove_task
                          (filter (\<lambda>n. n \<notin> redis_task_names) current_task_names) self1
            in (case load_tasks lib loads schedule_data self2 of
                  Inl (e, self3) \<Rightarrow> self3\<lparr>logger := logger self3 @ [Error_sync e]\<rparr>
                | Inr self3 \<Rightarrow>
                    let self4 = self3\<lparr>last_sync := Some now\<rparr>
                    in self4\<lparr>logger := logger self4 @
                                 [Info_synced (map fst (schedule self4))]\<rparr>)))"

text \<open>
  \<open>tick\<close>: the debug line (with its own reading \<open>now0\<close> of the clock), then the sync.
  The library's \<open>Scheduler.tick\<close>, which runs the due entries afterwards, is not part
  of the model.
\<close>

definition tick ::
  "('sch, 'e) celery \<Rightarrow> (string \<Rightarrow> exn + pyval) \<Rightarrow> datetime \<Rightarrow> datetime
     \<Rightarrow> exn + (string \<times> string) list \<Rightarrow> 'e scheduler \<Rightarrow> 'e scheduler" where
  "tick lib loads now0 now hgetall self =
     sync_schedule_from_redis lib loads now hgetall
       (self\<lparr>logger := logger self @
          [case last_sync self of
             Some t \<Rightarrow> Debug_tick_elapsed (now0 - t)
           | None \<Rightarrow> Debug_tick_no_sync]\<rparr>)"

text \<open>
  For the statements and proofs: a store value that does not make the second loop
  stop (it parses, or what \<open>json.loads\<close> raises on it is caught in the round), and
  the round on such a value.
\<close>

definition handled :: "(string \<Rightarrow> exn + pyval) \<Rightarrow> string \<Rightarrow> bool" where
  "handled loads raw = (case loads raw of Inl e \<Rightarrow> e = JSONDecodeError | Inr v \<Rightarrow> True)"

definition load_step ::
  "('sch, 'e) celery \<Rightarrow> (string \<Rightarrow> exn + pyval) \<Rightarrow> string \<times> string \<Rightarrow> 'e scheduler
     \<Rightarrow> 'e scheduler" where
  "load_step lib loads item self =
     (case loads (snd item) of
        Inr task_config \<Rightarrow> add_or_update_task lib (fst item) task_config self
      | Inl e \<Rightarrow> self\<lparr>logger := logger self @ [Error_parse (fst item)]\<rparr>)"

text \<open>
  A stand-in for the library, for evaluating the scheduler on examples: schedules and
  entries are the tuples of their arguments, and the crontab constructor refuses a
  pattern that is not a string.
\<close>

datatype timing = Crontab pyval pyval pyval pyval pyval | Interval pyval

record entry =
  se_name :: string
  se_task :: pyval
  se_schedule :: timing
  se_args :: pyval
  se_kwargs :: pyval
  se_options :: pyval

fun is_str :: "pyval \<Rightarrow> bool" where
  "is_str (PStr s) = True"
| "is_str v = False"

definition demo_crontab :: "pyval \<Rightarrow> pyval \<Rightarrow> pyval \<Rightarrow> pyval \<Rightarrow> pyval \<Rightarrow> timing option" where
  "demo_crontab minute hour day_of_week day_of_month month_of_year =
     (if is_str minute \<and> is_str hour \<and> is_str day_of_week \<and> is_str day_of_month
         \<and> is_str month_of_year
      then Some (Crontab minute hour day_of_week day_of_month month_of_year) else None)"

definition demo_schedule :: "pyval \<Rightarrow> timing option" where
  "demo_schedule run_every = Some (Interval run_every)"

definition demo_ScheduleEntry ::
  "string \<Rightarrow> pyval \<Rightarrow> timing \<Rightarrow> pyval \<Rightarrow> pyval \<Rightarrow> pyval \<Rightarrow> entry option" where
  "demo_ScheduleEntry n t s a k opts =
     Some \<lparr>se_name = n, se_task = t, se_schedule = s, se_args = a, se_kwargs = k,
           se_options = opts\<rparr>"

definition demo_celery :: "(timing, entry) celery" where
  "demo_celery = \<lparr>lib_crontab = demo_crontab, lib_schedule = demo_schedule,
                  lib_ScheduleEntry = demo_ScheduleEntry\<rparr>"

text \<open>The text \<open>'[' * 100000\<close>: arrays nested deeper than the parser's stack allows.\<close>

definition deeply_nested :: string where
  "deeply_nested = replicate 100000 (CHR ''['')"

text \<open>
  A stand-in for \<open>json.loads\<close> on four texts: two job specifications, one text that
  is not JSON, and the deeply nested one, on which it raises \<open>RecursionError\<close>.
\<close>

definition demo_loads :: "string \<Rightarrow> exn + pyval" where
  "demo_loads s =
     (if s = ''{\"task\": \"app.tasks.sync_contacts\"}''
      then Inr (PDict [(''task'', PStr ''app.tasks.sync_contacts'')])
      else if s = ''{\"task\": \"app.tasks.sync_invoices\", \"schedule_type\": \"crontab\"}''
      then Inr (PDict [(''task'', PStr ''app.tasks.sync_invoices''),
                       (''schedule_type'', PStr ''crontab'')])
      else if s = deeply_nested then Inl RecursionError
      else Inl JSONDecodeError)"

text \<open>The attributes that \<open>__init__\<close> sets, before the first sync.\<close>

definition new_scheduler :: "'e scheduler" where
  "new_scheduler = \<lparr>schedule = [], last_sync = None, sync_interval = 10, logger = []\<rparr>"

text \<open>A Redis hash with two job specifications and one value that is not JSON.\<close>

definition demo_store :: "(string \<times> string) list" where
  "demo_store =
     [(''contacts'', ''{\"task\": \"app.tasks.sync_contacts\"}''),
      (''broken'', ''not json''),
      (''invoices'', ''{\"task\": \"app.tasks.sync_invoices\", \"schedule_type\": \"crontab\"}'')]"


definition demo_contacts :: "pydict list" where
  "demo_contacts = [demo_contact 1, demo_contact 2, demo_contact 3]"

definition demo_contact_table :: "contact_attrs row list" where
  "demo_contact_table = [demo_contact_row 2, demo_contact_row 3, demo_contact_row 4]"

definition demo_invoice :: "int \<Rightarrow> pydict" where
  "demo_invoice i =
     [(''id'', PInt i), (''name'', PStr ''INV/7''), (''invoice_date'', PBool False),
      (''partner_id'', PList [PInt 7, PStr ''Acme'']), (''amount_total'', PBool False),
      (''state'', PBool False), (''currency_id'', PBool False)]"

definition demo_invoice_row :: "int \<Rightarrow> invoice_attrs row" where
  "demo_invoice_row i =
     \<lparr>odoo_id = i,
      attrs = \<lparr>inv_name = PStr ''old'', inv_move_type = PStr ''out_invoice'',
               inv_invoice_date = None, inv_partner_id = PNone, inv_partner_name = PNone,
               inv_amount_total = PNone, inv_amount_residual = PNone, inv_state = PNone,
               inv_currency_id = PNone, inv_currency_name = PNone, inv_write_date = None,
               inv_create_date = None\<rparr>,
      created_at = Some 1, updated_at = Some 1\<rparr>"

definition demo_invoices :: "pydict list" where
  "demo_invoices = [demo_invoice 1, demo_invoice 2, demo_invoice 3]"

definition demo_invoice_table :: "invoice_attrs row list" where
  "demo_invoice_table = [demo_invoice_row 2, demo_invoice_row 3, demo_invoice_row 4]"

section \<open>Pagination: the fetch loop\<close>

lemma get_all_loop_stop:
  assumes "get_page w limit offset = (Inr page, w')"
    and "page = [] \<or> length page < limit"
  shows "get_all_loop get_page limit w offset acc = Some (Inr (acc @ page), w')"
  using assms by (subst get_all_loop.simps) auto

lemma get_all_loop_error:
  assumes "get_page w limit offset = (Inl e, w')"
  shows "get_all_loop get_page limit w offset acc = Some (Inl e, w')"
  using assms by (subst get_all_loop.simps) auto

lemma get_all_loop_continue:
  assumes "get_page w limit offset = (Inr page, w')"
    and "page \<noteq> []" and "\<not> length page < limit"
  shows "get_all_loop get_page limit w offset acc =
         get_all_loop get_page limit w' (offset + limit) (acc @ page)"
  using assms by (subst get_all_loop.simps) auto

lemma static_remote_150:
  assumes "length records = 150"
  shows "get_all_loop (static_remote records) 100 [] 0 [] = Some (Inr records, [0, 100])"
proof -
  let ?p1 = "take 100 records" and ?p2 = "take 100 (drop 100 records)"
  have p1: "static_remote records [] 100 0 = (Inr ?p1, [0])"
    by (simp add: static_remote_def)
  have p2: "static_remote records [0] 100 (0 + 100) = (Inr ?p2, [0, 100])"
    by (simp add: static_remote_def)
  have l1: "length ?p1 = 100" and l2: "length ?p2 = 50"
    using assms by simp_all
  have ne: "?p1 \<noteq> []" using l1 by auto
  have "get_all_loop (static_remote records) 100 [] 0 [] =
        get_all_loop (static_remote records) 100 [0] (0 + 100) ([] @ ?p1)"
    using get_all_loop_continue [where get_page = "static_remote records" and w = "[]"
        and limit = 100 and offset = 0 and acc = "[]", OF p1 ne] l1 by simp
  also have "\<dots> = Some (Inr (([] @ ?p1) @ ?p2), [0, 100])"
    using get_all_loop_stop [where get_page = "static_remote records" and w = "[0]"
        and limit = 100 and offset = "0 + 100" and acc = "[] @ take 100 records", OF p2] l2
    by simp
  also have "([] @ ?p1) @ ?p2 = records"
    using assms by (simp add: take_add [symmetric])
  finally show ?thesis .
qed

text \<open>
  C7.  Against a remote source holding exactly 150 records, \<open>get_all_contacts\<close> (and
  \<open>get_all_invoices\<close>) returns the 150 records in order after exactly the two page
  requests at offsets 0 and 100: the log of requested offsets ends as \<open>[0, 100]\<close>, so
  offset 200 is never asked for.  And in every state of the loop, a page that is empty
  or shorter than the page size ends the loop at once: the loop returns what it has
  collected plus that page, and the world is left as that one request left it.
\<close>

theorem C7_pagination:
  "(length records = 150 \<longrightarrow>
      get_all_contacts (static_remote records) [] = Some (Inr records, [0, 100]) \<and>
      get_all_invoices (static_remote records) [] = Some (Inr records, [0, 100])) \<and>
   (get_page w limit offset = (Inr page, w') \<and> (page = [] \<or> length page < limit) \<longrightarrow>
      get_all_loop get_page limit w offset all_records = Some (Inr (all_records @ page), w'))"
  using static_remote_150 [of records]
    get_all_loop_stop [of get_page w limit offset page w' all_records]
  by (simp add: get_all_contacts_def get_all_invoices_def)

theorem C7_pagination_witness:
  "get_all_contacts (static_remote (map demo_record [0..<150])) []
     = Some (Inr (map demo_record [0..<150]), [0, 100]) \<and>
   get_all_invoices (static_remote (map demo_record [0..<150])) []
     = Some (Inr (map demo_record [0..<150]), [0, 100]) \<and>
   get_all_loop (static_remote (map demo_record [0..<150])) 100 [0] 100 [demo_record 7]
     = Some (Inr (demo_record 7 # map demo_record [100..<150]), [0, 100])"
proof -
  have d: "drop 100 (map demo_record [0..<150]) = map demo_record [100..<150]"
    by (simp add: drop_map)
  have pg: "static_remote (map demo_record [0..<150]) [0] 100 100
            = (Inr (map demo_record [100..<150]), [0, 100])"
    by (simp add: static_remote_def d)
  show ?thesis
    using C7_pagination [where records = "map demo_record [0..<150]"
        and get_page = "static_remote (map demo_record [0..<150])" and w = "[0]"
        and limit = 100 and offset = 100 and page = "map demo_record [100..<150]"
        and w' = "[0, 100]" and all_records = "[demo_record 7]"] pg
    by simp
qed

section \<open>Scheduler: synchronizing the plan with the store\<close>

lemma throttled_logger [simp]: "throttled (self\<lparr>logger := l\<rparr>) now = throttled self now"
  by (simp add: throttled_def split: option.splits)

lemma sync_read_failed:
  assumes "\<not> throttled self now"
  shows "sync_schedule_from_redis lib loads now (Inl e) self
         = self\<lparr>logger := logger self @ [Info_syncing, Error_sync e]\<rparr>"
  using assms by (simp add: sync_schedule_from_redis_def)

lemma throttled_later:
  assumes "\<not> throttled self now" and "now \<le> now'"
  shows "\<not> throttled self now'"
  using assms by (auto simp: throttled_def split: option.splits)

lemma schedule_remove_task:
  "schedule (remove_task n self) = filter (\<lambda>p. fst p \<noteq> n) (schedule self)"
  by (auto simp: remove_task_def AList.delete_eq case_prod_unfold intro: filter_cong)

lemma schedule_fold_remove:
  "schedule (fold remove_task ns self) = filter (\<lambda>p. fst p \<notin> set ns) (schedule self)"
  by (induction ns arbitrary: self) (auto simp: schedule_remove_task intro: filter_cong)

lemma last_sync_fold_remove [simp]: "last_sync (fold remove_task ns self) = last_sync self"
  by (induction ns arbitrary: self) (simp_all add: remove_task_def)


lemma keys_update: "fst ` set (AList.update k v al) = insert k (fst ` set al)"
  by (induction al) auto

subsection \<open>The second loop: where it stops\<close>

lemma handled_Inr [simp]: "loads raw = Inr cfg \<Longrightarrow> handled loads raw"
  by (simp add: handled_def)

lemma handled_Inl: "loads raw = Inl e \<Longrightarrow> handled loads raw \<longleftrightarrow> e = JSONDecodeError"
  by (simp add: handled_def)

lemma load_task_handled:
  assumes "handled loads (snd item)"
  shows "load_task lib loads item self = Inr (load_step lib loads item self)"
  using assms by (auto simp: handled_def load_task_def load_step_def split: sum.splits)

lemma load_task_escapes:
  assumes "loads (snd item) = Inl e" and "e \<noteq> JSONDecodeError"
  shows "load_task lib loads item self = Inl (e, self)"
  using assms by (simp add: load_task_def)

lemma load_tasks_handled:
  assumes "\<forall>item \<in> set items. handled loads (snd item)"
  shows "load_tasks lib loads items self = Inr (fold (load_step lib loads) items self)"
  using assms by (induction items arbitrary: self) (simp_all add: load_task_handled)

lemma load_tasks_escapes:
  assumes "\<forall>i \<in> set pre. handled loads (snd i)"
    and "loads (snd item) = Inl e" and "e \<noteq> JSONDecodeError"
  shows "load_tasks lib loads (pre @ item # rest) self
         = Inl (e, fold (load_step lib loads) pre self)"
  using assms
  by (induction pre arbitrary: self) (simp_all add: load_task_handled load_task_escapes)

lemma store_cases:
  obtains (all_handled) "\<forall>item \<in> set items. handled loads (snd item)"
  | (escapes) pre item rest e where "items = pre @ item # rest"
      "\<forall>i \<in> set pre. handled loads (snd i)" "loads (snd item) = Inl e" "e \<noteq> JSONDecodeError"
proof (cases "\<forall>item \<in> set items. handled loads (snd item)")
  case True
  then show ?thesis by (rule all_handled)
next
  case False
  then have "\<exists>item \<in> set items. \<not> handled loads (snd item)" by blast
  from split_list_first_prop [OF this] obtain pre item rest where
    s: "items = pre @ item # rest" and n: "\<not> handled loads (snd item)"
    and p: "\<forall>i \<in> set pre. handled loads (snd i)"
    by blast
  from n obtain e where "loads (snd item) = Inl e" "e \<noteq> JSONDecodeError"
    by (auto simp: handled_def split: sum.splits)
  with s p show ?thesis by (rule escapes)
qed

subsection \<open>What one store item contributes to the plan\<close>

lemma schedule_load_step:
  "schedule (load_step lib loads item self) =
     (case loads (snd item) of
        Inl e \<Rightarrow> schedule self
      | Inr cfg \<Rightarrow> (case build_entry lib (fst item) cfg of
                      None \<Rightarrow> schedule self
                    | Some e \<Rightarrow> AList.update (fst item) e (schedule self)))"
  by (simp add: load_step_def add_or_update_task_def split: option.splits sum.splits)

lemma last_sync_load_step [simp]: "last_sync (load_step lib loads item self) = last_sync self"
  by (simp add: load_step_def add_or_update_task_def split: option.splits sum.splits)

lemma last_sync_fold_load [simp]:
  "last_sync (fold (load_step lib loads) items self) = last_sync self"
  by (induction items arbitrary: self) simp_all

lemma keys_load_step:
  "fst ` set (schedule (load_step lib loads item self)) =
     fst ` set (schedule self) \<union>
     {n. n = fst item \<and> (\<exists>cfg e. loads (snd item) = Inr cfg \<and> build_entry lib n cfg = Some e)}"
proof (cases "loads (snd item)")
  case (Inl e)
  then show ?thesis by (simp add: schedule_load_step)
next
  case (Inr cfg)
  show ?thesis
  proof (cases "build_entry lib (fst item) cfg")
    case None
    then show ?thesis using Inr by (auto simp: schedule_load_step)
  next
    case (Some e)
    have "fst ` set (AList.update (fst item) e (schedule self))
          = insert (fst item) (fst ` set (schedule self))"
      by (rule keys_update)
    then show ?thesis using Some Inr
      by (auto simp: schedule_load_step)
  qed
qed

lemma keys_fold_load:
  "fst ` set (schedule (fold (load_step lib loads) items self)) =
     fst ` set (schedule self) \<union>
     {n. \<exists>raw cfg e. (n, raw) \<in> set items \<and> loads raw = Inr cfg \<and> build_entry lib n cfg = Some e}"
proof (induction items arbitrary: self)
  case Nil
  then show ?case by simp
next
  case (Cons a items)
  obtain n raw where a: "a = (n, raw)" by (cases a)
  show ?case
    unfolding fold_simps Cons.IH keys_load_step a by auto
qed







subsection \<open>A call whose read succeeds\<close>

lemma sync_read_ok:
  assumes "\<not> throttled self now"
    and "\<forall>item \<in> set schedule_data. handled loads (snd item)"
  shows "sync_schedule_from_redis lib loads now (Inr schedule_data) self =
     (let self3 = fold (load_step lib loads) schedule_data
                    (fold remove_task
                       (filter (\<lambda>n. n \<notin> set (map fst schedule_data)) (map fst (schedule self)))
                       (self\<lparr>logger := logger self @ [Info_syncing]\<rparr>))
      in self3\<lparr>last_sync := Some now,
               logger := logger self3 @ [Info_synced (map fst (schedule self3))]\<rparr>)"
  using assms(1)
  by (simp add: sync_schedule_from_redis_def Let_def load_tasks_handled [OF assms(2)])

lemma sync_read_stopped:
  assumes "\<not> throttled self now"
    and "\<forall>i \<in> set pre. handled loads (snd i)"
    and "loads (snd item) = Inl e" and "e \<noteq> JSONDecodeError"
  shows "sync_schedule_from_redis lib loads now (Inr (pre @ item # rest)) self =
     (let self3 = fold (load_step lib loads) pre
                    (fold remove_task
                       (filter (\<lambda>n. n \<notin> set (map fst (pre @ item # rest)))
                          (map fst (schedule self)))
                       (self\<lparr>logger := logger self @ [Info_syncing]\<rparr>))
      in self3\<lparr>logger := logger self3 @ [Error_sync e]\<rparr>)"
  using assms(1)
  by (simp add: sync_schedule_from_redis_def Let_def load_tasks_escapes [OF assms(2,3,4)])

lemma last_sync_after_read:
  assumes "\<not> throttled self now"
  shows "last_sync (sync_schedule_from_redis lib loads now (Inr schedule_data) self) =
     (if \<forall>item \<in> set schedule_data. handled loads (snd item) then Some now
      else last_sync self)"
proof (cases rule: store_cases [of schedule_data loads])
  case all_handled
  then show ?thesis using assms by (simp add: sync_read_ok Let_def)
next
  case (escapes pre item rest e)
  have nh: "\<not> handled loads (snd item)"
    using escapes(3,4) by (simp add: handled_Inl)
  have nall: "\<not> (\<forall>item \<in> set schedule_data. handled loads (snd item))"
  proof
    assume "\<forall>item \<in> set schedule_data. handled loads (snd item)"
    moreover have "item \<in> set schedule_data" unfolding escapes(1) by simp
    ultimately show False using nh by blast
  qed
  have ls: "last_sync (sync_schedule_from_redis lib loads now (Inr schedule_data) self)
            = last_sync self"
    unfolding escapes(1) by (simp add: sync_read_stopped [OF assms escapes(2,3,4)] Let_def)
  show ?thesis unfolding ls if_not_P [OF nall] ..
qed

lemma keys_after_remove:
  "fst ` set (schedule (fold remove_task (filter (\<lambda>n. n \<notin> K) (map fst (schedule self))) self0))
     = fst ` set (schedule self0) - (fst ` set (schedule self) - K)"
  by (auto simp: schedule_fold_remove)

lemma schedule_fold_load_cong:
  "schedule s1 = schedule s2 \<Longrightarrow>
   schedule (fold (load_step lib loads) items s1) = schedule (fold (load_step lib loads) items s2)"
proof (induction items arbitrary: s1 s2)
  case Nil
  then show ?case by simp
next
  case (Cons a items)
  have "schedule (load_step lib loads a s1) = schedule (load_step lib loads a s2)"
    using Cons.prems by (simp add: schedule_load_step split: option.splits sum.splits)
  from Cons.IH [OF this] show ?case by simp
qed

lemma schedule_sync_logger:
  "schedule (sync_schedule_from_redis lib loads now h (self\<lparr>logger := l\<rparr>))
     = schedule (sync_schedule_from_redis lib loads now h self)"
proof (cases "throttled self now")
  case True
  then show ?thesis by (simp add: sync_schedule_from_redis_def)
next
  case False
  then have nl: "\<not> throttled (self\<lparr>logger := l\<rparr>) now" by simp
  show ?thesis
  proof (cases h)
    case (Inl e)
    then show ?thesis using False by (simp add: sync_schedule_from_redis_def)
  next
    case (Inr schedule_data)
    show ?thesis
    proof (cases rule: store_cases [of schedule_data loads])
      case all_handled
      show ?thesis
        unfolding Inr sync_read_ok [OF False all_handled] sync_read_ok [OF nl all_handled]
        by (auto simp: Let_def schedule_fold_remove intro!: schedule_fold_load_cong)
    next
      case (escapes pre item rest e)
      show ?thesis
        unfolding Inr escapes(1) sync_read_stopped [OF False escapes(2,3,4)]
          sync_read_stopped [OF nl escapes(2,3,4)]
        by (auto simp: Let_def schedule_fold_remove intro!: schedule_fold_load_cong)
    qed
  qed
qed

lemma last_sync_sync_logger:
  "last_sync (sync_schedule_from_redis lib loads now h (self\<lparr>logger := l\<rparr>))
     = last_sync (sync_schedule_from_redis lib loads now h self)"
proof (cases "throttled self now")
  case True
  then show ?thesis by (simp add: sync_schedule_from_redis_def)
next
  case False
  then have nl: "\<not> throttled (self\<lparr>logger := l\<rparr>) now" by simp
  show ?thesis
  proof (cases h)
    case (Inl e)
    then show ?thesis using False by (simp add: sync_schedule_from_redis_def)
  next
    case (Inr schedule_data)
    show ?thesis
      unfolding Inr last_sync_after_read [OF False] last_sync_after_read [OF nl] by simp
  qed
qed

lemma tick_as_sync:
  "schedule (tick lib loads now0 now h self) = schedule (sync_schedule_from_redis lib loads now h self)"
  "last_sync (tick lib loads now0 now h self) = last_sync (sync_schedule_from_redis lib loads now h self)"
  by (simp_all add: tick_def schedule_sync_logger last_sync_sync_logger)

lemma throttled_cong:
  "last_sync s1 = last_sync s2 \<Longrightarrow> sync_interval s1 = sync_interval s2 \<Longrightarrow>
   throttled s1 now = throttled s2 now"
  by (simp add: throttled_def split: option.splits)

lemma sync_interval_fold_remove [simp]:
  "sync_interval (fold remove_task ns self) = sync_interval self"
  by (induction ns arbitrary: self) (simp_all add: remove_task_def)

lemma sync_interval_fold_load [simp]:
  "sync_interval (fold (load_step lib loads) items self) = sync_interval self"
  by (induction items arbitrary: self)
     (simp_all add: load_step_def add_or_update_task_def split: option.splits sum.splits)

lemma sync_interval_sync [simp]:
  "sync_interval (sync_schedule_from_redis lib loads now h self) = sync_interval self"
proof (cases "throttled self now")
  case True
  then show ?thesis by (simp add: sync_schedule_from_redis_def)
next
  case False
  show ?thesis
  proof (cases h)
    case (Inl e)
    then show ?thesis using False by (simp add: sync_schedule_from_redis_def)
  next
    case (Inr schedule_data)
    show ?thesis
    proof (cases rule: store_cases [of schedule_data loads])
      case all_handled
      show ?thesis
        unfolding Inr sync_read_ok [OF False all_handled] by (simp add: Let_def)
    next
      case (escapes pre item rest e)
      show ?thesis
        unfolding Inr escapes(1) sync_read_stopped [OF False escapes(2,3,4)]
        by (simp add: Let_def)
    qed
  qed
qed

lemma sync_interval_tick [simp]:
  "sync_interval (tick lib loads now0 now h self) = sync_interval self"
  by (simp add: tick_def)

subsection \<open>The sample store\<close>

lemma deeply_nested_hd: "deeply_nested = CHR ''['' # replicate 99999 (CHR ''['')"
proof -
  have "(100000 :: nat) = Suc 99999" by simp
  then have "replicate 100000 (CHR ''['') = replicate (Suc 99999) (CHR ''['')"
    by (simp only:)
  then show ?thesis
    unfolding deeply_nested_def by (simp only: replicate.simps)
qed

lemma demo_loads_simps:
  "demo_loads ''{\"task\": \"app.tasks.sync_contacts\"}''
     = Inr (PDict [(''task'', PStr ''app.tasks.sync_contacts'')])"
  "demo_loads ''{\"task\": \"app.tasks.sync_invoices\", \"schedule_type\": \"crontab\"}''
     = Inr (PDict [(''task'', PStr ''app.tasks.sync_invoices''),
                   (''schedule_type'', PStr ''crontab'')])"
  "demo_loads ''not json'' = Inl JSONDecodeError"
  "demo_loads deeply_nested = Inl RecursionError"
  by (simp_all add: demo_loads_def deeply_nested_hd)

lemma demo_store_handled: "\<forall>item \<in> set demo_store. handled demo_loads (snd item)"
  by (simp add: demo_store_def handled_def demo_loads_simps)

text \<open>
  C9.  When the read of the store raises, a synchronize call that is not throttled
  changes nothing but the log: the plan and \<open>last_sync\<close> are as before, also through
  \<open>tick\<close>.  A tick at any later time is then not throttled either: it reads the store
  again, and with a successful read it sets \<open>last_sync\<close>, unless \<open>json.loads\<close> raises
  on a value what the loop does not catch, which leaves \<open>last_sync\<close> as it is once more.
\<close>

theorem C9_store_unavailable:
  assumes "\<not> throttled self now"
  shows "sync_schedule_from_redis lib loads now (Inl e) self
           = self\<lparr>logger := logger self @ [Info_syncing, Error_sync e]\<rparr>
       \<and> schedule (tick lib loads now0 now (Inl e) self) = schedule self
       \<and> last_sync (tick lib loads now0 now (Inl e) self) = last_sync self
       \<and> (now \<le> now' \<longrightarrow>
            \<not> throttled (tick lib loads now0 now (Inl e) self) now'
          \<and> last_sync (tick lib loads now1 now' (Inr schedule_data)
                         (tick lib loads now0 now (Inl e) self))
              = (if \<forall>item \<in> set schedule_data. handled loads (snd item) then Some now'
                 else last_sync self))"
proof -
  let ?t = "tick lib loads now0 now (Inl e) self"
  have s: "sync_schedule_from_redis lib loads now (Inl e) self
           = self\<lparr>logger := logger self @ [Info_syncing, Error_sync e]\<rparr>"
    by (rule sync_read_failed [OF assms])
  have sch: "schedule ?t = schedule self" and ls: "last_sync ?t = last_sync self"
    by (simp_all add: tick_as_sync s)
  have later: "\<not> throttled ?t now'" if "now \<le> now'"
    using throttled_later [OF assms that] throttled_cong [of ?t self now'] ls by simp
  have "last_sync (tick lib loads now1 now' (Inr schedule_data) ?t)
          = (if \<forall>item \<in> set schedule_data. handled loads (snd item) then Some now'
             else last_sync self)" if "now \<le> now'"
    using last_sync_after_read [OF later [OF that], of lib loads schedule_data] ls
    by (simp add: tick_as_sync)
  with s sch ls later show ?thesis by blast
qed

theorem C9_store_unavailable_witness:
  "\<not> throttled (new_scheduler :: entry scheduler) 5
   \<and> sync_schedule_from_redis demo_celery demo_loads 5 (Inl ConnectionError) new_scheduler
       = \<lparr>schedule = [], last_sync = None, sync_interval = 10,
          logger = [Info_syncing, Error_sync ConnectionError]\<rparr>
   \<and> last_sync (tick demo_celery demo_loads 7 7 (Inr demo_store)
         (tick demo_celery demo_loads 5 5 (Inl ConnectionError) new_scheduler)) = Some 7"
proof -
  have h: "\<not> throttled (new_scheduler :: entry scheduler) 5"
    by (simp add: throttled_def new_scheduler_def)
  show ?thesis
    using h C9_store_unavailable [OF h, of demo_celery demo_loads ConnectionError 5 7 7 demo_store]
      demo_store_handled
    by (simp add: new_scheduler_def)
qed

lemma keys_after_sync:
  assumes "\<not> throttled self now"
    and "\<forall>item \<in> set schedule_data. handled loads (snd item)"
  shows "fst ` set (schedule (sync_schedule_from_redis lib loads now (Inr schedule_data) self)) =
         (fst ` set (schedule self) \<inter> fst ` set schedule_data) \<union>
         {n. \<exists>raw cfg e. (n, raw) \<in> set schedule_data \<and> loads raw = Inr cfg
                \<and> build_entry lib n cfg = Some e}"
  using assms
  by (simp add: sync_read_ok Let_def keys_fold_load schedule_fold_remove) auto

text \<open>What the plan holds when the second loop is left early: the entries before the
  value that stopped it.\<close>

lemma keys_after_stopped_sync:
  assumes "\<not> throttled self now"
    and "\<forall>i \<in> set pre. handled loads (snd i)"
    and "loads (snd item) = Inl x" and "x \<noteq> JSONDecodeError"
  shows "fst ` set (schedule (sync_schedule_from_redis lib loads now (Inr (pre @ item # rest)) self)) =
         (fst ` set (schedule self) \<inter> fst ` set (pre @ item # rest)) \<union>
         {n. \<exists>raw cfg e. (n, raw) \<in> set pre \<and> loads raw = Inr cfg
                \<and> build_entry lib n cfg = Some e}"
  unfolding sync_read_stopped [OF assms]
  by (simp add: Let_def keys_fold_load schedule_fold_remove) auto

text \<open>
  C5 (as amended).  After one synchronize call that the throttle does not skip, whose
  read of the store succeeds, and in which \<open>json.loads\<close> raises nothing but
  \<open>JSONDecodeError\<close> (on whatever values), the key set of the plan is: the old plan
  keys that are still in the store, together with the store keys whose value parses and
  builds an entry.  So it is a subset of the store's key set, and it equals the store's
  key set when every store value parses and builds an entry.
\<close>

theorem C5_plan_keys_after_sync:
  assumes "\<not> throttled self now"
    and "\<forall>item \<in> set schedule_data. handled loads (snd item)"
    and "self' = sync_schedule_from_redis lib loads now (Inr schedule_data) self"
  shows "set (map fst (schedule self')) =
           (set (map fst (schedule self)) \<inter> set (map fst schedule_data)) \<union>
           {n. \<exists>raw cfg e. (n, raw) \<in> set schedule_data \<and> loads raw = Inr cfg
                  \<and> build_entry lib n cfg = Some e}
       \<and> set (map fst (schedule self')) \<subseteq> set (map fst schedule_data)
       \<and> ((\<forall>item \<in> set schedule_data.
              \<exists>cfg e. loads (snd item) = Inr cfg \<and> build_entry lib (fst item) cfg = Some e)
            \<longrightarrow> set (map fst (schedule self')) = set (map fst schedule_data))"
proof -
  have k: "set (map fst (schedule self')) =
           (set (map fst (schedule self)) \<inter> set (map fst schedule_data)) \<union>
           {n. \<exists>raw cfg e. (n, raw) \<in> set schedule_data \<and> loads raw = Inr cfg
                  \<and> build_entry lib n cfg = Some e}"
    using keys_after_sync [OF assms(1,2)] assms(3) by simp
  have sub: "set (map fst (schedule self')) \<subseteq> set (map fst schedule_data)"
    unfolding k by force
  have "set (map fst (schedule self')) = set (map fst schedule_data)"
    if "\<forall>item \<in> set schedule_data.
          \<exists>cfg e. loads (snd item) = Inr cfg \<and> build_entry lib (fst item) cfg = Some e"
  proof
    show "set (map fst (schedule self')) \<subseteq> set (map fst schedule_data)" by (rule sub)
    show "set (map fst schedule_data) \<subseteq> set (map fst (schedule self'))"
      unfolding k using that by fastforce
  qed
  with k sub show ?thesis by blast
qed

lemmas eval_sync = sync_schedule_from_redis_def throttled_def new_scheduler_def
  load_task_def add_or_update_task_def build_entry_def demo_loads_simps demo_celery_def
  demo_crontab_def demo_schedule_def demo_ScheduleEntry_def dict_get_default_def

lemma demo_sync_schedule:
  "schedule (sync_schedule_from_redis demo_celery demo_loads 0 (Inr demo_store) new_scheduler) =
     [(''contacts'', \<lparr>se_name = ''contacts'', se_task = PStr ''app.tasks.sync_contacts'',
                      se_schedule = Interval (PInt 300), se_args = PList [],
                      se_kwargs = PDict [], se_options = PDict []\<rparr>),
      (''invoices'', \<lparr>se_name = ''invoices'', se_task = PStr ''app.tasks.sync_invoices'',
                      se_schedule = Crontab (PStr ''*'') (PStr ''*'') (PStr ''*'') (PStr ''*'') (PStr ''*''),
                      se_args = PList [], se_kwargs = PDict [], se_options = PDict []\<rparr>)]"
  by (simp add: eval_sync demo_store_def)

text \<open>
  C5 as stated fails: with an empty plan and a store holding one value that is not JSON
  beside two good ones, the plan has two keys after the sync and the store three.
\<close>

theorem C5_counterexample:
  "\<not> throttled (new_scheduler :: entry scheduler) 0 \<and>
   set (map fst (schedule (sync_schedule_from_redis demo_celery demo_loads 0 (Inr demo_store)
                             new_scheduler)))
     \<noteq> set (map fst demo_store)"
proof -
  have h: "\<not> throttled (new_scheduler :: entry scheduler) 0"
    by (simp add: throttled_def new_scheduler_def)
  have out: "''broken'' \<notin> set (map fst (schedule (sync_schedule_from_redis demo_celery
                 demo_loads 0 (Inr demo_store) new_scheduler)))"
    by (simp add: demo_sync_schedule)
  have inn: "''broken'' \<in> set (map fst demo_store)"
    by (simp add: demo_store_def)
  from h out inn show ?thesis by metis
qed

theorem C5_plan_keys_after_sync_witness:
  "\<not> throttled (new_scheduler :: entry scheduler) 0 \<and>
   handled demo_loads ''{\"task\": \"app.tasks.sync_contacts\"}'' \<and>
   handled demo_loads ''not json'' \<and>
   handled demo_loads
     ''{\"task\": \"app.tasks.sync_invoices\", \"schedule_type\": \"crontab\"}'' \<and>
   set (map fst (schedule (sync_schedule_from_redis demo_celery demo_loads 0 (Inr demo_store)
                             new_scheduler)))
     \<subseteq> set (map fst demo_store) \<and>
   set (map fst (schedule (sync_schedule_from_redis demo_celery demo_loads 0 (Inr demo_store)
                             new_scheduler))) = {''contacts'', ''invoices''}"
proof -
  have h: "\<not> throttled (new_scheduler :: entry scheduler) 0"
    by (simp add: throttled_def new_scheduler_def)
  have hd: "handled demo_loads ''{\"task\": \"app.tasks.sync_contacts\"}''"
    "handled demo_loads ''not json''"
    "handled demo_loads
       ''{\"task\": \"app.tasks.sync_invoices\", \"schedule_type\": \"crontab\"}''"
    by (simp_all add: handled_def demo_loads_simps)
  have sub: "set (map fst (schedule (sync_schedule_from_redis demo_celery demo_loads 0
                 (Inr demo_store) new_scheduler))) \<subseteq> set (map fst demo_store)"
    using C5_plan_keys_after_sync [OF h demo_store_handled refl, of demo_celery] by blast
  have eq: "set (map fst (schedule (sync_schedule_from_redis demo_celery demo_loads 0
                 (Inr demo_store) new_scheduler))) = {''contacts'', ''invoices''}"
    by (simp add: demo_sync_schedule)
  from h hd sub eq show ?thesis by blast
qed







section \<open>Reconciliation: the session and the loop\<close>

subsection \<open>Session operations\<close>

lemma stamp_keys [simp]: "map odoo_id (stamp utcnow n xs) = map odoo_id xs"
  by (induction xs arbitrary: n) simp_all

lemma stamp_attrs [simp]: "map attrs (stamp utcnow n xs) = map attrs xs"
  by (induction xs arbitrary: n) simp_all

lemma length_stamp [simp]: "length (stamp utcnow n xs) = length xs"
  by (induction xs arbitrary: n) simp_all

lemma flush_cases:
  obtains (ok) s1 where "flush utcnow s = Inr s1"
      "distinct (map odoo_id (pending s))"
      "set (map odoo_id (pending s)) \<inter> set (map odoo_id (tx s)) = {}"
      "tx s1 = tx s @ stamp utcnow (ticks s) (pending s)" "pending s1 = []"
      "committed s1 = committed s" "bulk_deletes s1 = bulk_deletes s"
    | (err) "flush utcnow s = Inl (IntegrityError, s)"
  by (cases "distinct (map odoo_id (pending s))
         \<and> set (map odoo_id (pending s)) \<inter> set (map odoo_id (tx s)) = {}")
     (simp_all add: flush_def)

lemma flush_Inr:
  assumes "flush utcnow s = Inr s1"
  shows "distinct (map odoo_id (pending s))"
    and "set (map odoo_id (pending s)) \<inter> set (map odoo_id (tx s)) = {}"
    and "tx s1 = tx s @ stamp utcnow (ticks s) (pending s)" and "pending s1 = []"
    and "committed s1 = committed s" and "bulk_deletes s1 = bulk_deletes s"
  using assms by (auto simp: flush_def split: if_splits)

lemma flush_Inl:
  assumes "flush utcnow s = Inl (e, s1)"
  shows "s1 = s" and "e = IntegrityError"
  using assms by (auto simp: flush_def split: if_splits)

lemma flush_nothing_pending [simp]: "pending s = [] \<Longrightarrow> flush utcnow s = Inr s"
  by (simp add: flush_def)

lemma autoflush_nothing_pending [simp]: "pending s = [] \<Longrightarrow> autoflush af utcnow s = Inr s"
  by (simp add: autoflush_def)

lemma autoflush_Inl:
  assumes "autoflush af utcnow s = Inl (e, s1)"
  shows "s1 = s" and "e = IntegrityError"
  using assms flush_Inl [of utcnow s e s1] by (auto simp: autoflush_def split: if_splits)

lemma autoflush_Inr:
  assumes "autoflush af utcnow s = Inr s1"
  shows "committed s1 = committed s" and "bulk_deletes s1 = bulk_deletes s"
    and "map odoo_id (tx s1 @ pending s1) = map odoo_id (tx s @ pending s)"
    and "map attrs (tx s1 @ pending s1) = map attrs (tx s @ pending s)"
    and "\<not> af \<Longrightarrow> s1 = s" and "af \<Longrightarrow> pending s1 = []"
    and "af \<Longrightarrow> distinct (map odoo_id (tx s)) \<Longrightarrow> distinct (map odoo_id (tx s1))"
proof -
  show "\<not> af \<Longrightarrow> s1 = s" using assms by (simp add: autoflush_def)
  show "af \<Longrightarrow> pending s1 = []" using assms flush_Inr(4) [of utcnow s s1]
    by (simp add: autoflush_def)
  show "af \<Longrightarrow> distinct (map odoo_id (tx s)) \<Longrightarrow> distinct (map odoo_id (tx s1))"
    using assms flush_Inr(1,2,3) [of utcnow s s1] by (simp add: autoflush_def) blast
  show "committed s1 = committed s" using assms flush_Inr(5) [of utcnow s s1]
    by (cases af) (simp_all add: autoflush_def)
  show "bulk_deletes s1 = bulk_deletes s" using assms flush_Inr(6) [of utcnow s s1]
    by (cases af) (simp_all add: autoflush_def)
  show "map odoo_id (tx s1 @ pending s1) = map odoo_id (tx s @ pending s)"
    using assms flush_Inr(3,4) [of utcnow s s1] by (cases af) (simp_all add: autoflush_def)
  show "map attrs (tx s1 @ pending s1) = map attrs (tx s @ pending s)"
    using assms flush_Inr(3,4) [of utcnow s s1] by (cases af) (simp_all add: autoflush_def)
qed

lemma autoflush_distinct:
  assumes "autoflush af utcnow s = Inr s1" and "distinct (map odoo_id (tx s))"
  shows "distinct (map odoo_id (tx s1))"
  using assms autoflush_Inr(5,7) [OF assms(1)] by (cases af) auto

subsection \<open>Lookup and update of a row\<close>

lemma find_None_keys: "find (\<lambda>x. odoo_id x = i) xs = None \<longleftrightarrow> i \<notin> set (map odoo_id xs)"
  by (induction xs) auto

lemma find_Some_keys: "find (\<lambda>x. odoo_id x = i) xs = Some y \<Longrightarrow> i \<in> set (map odoo_id xs)"
  by (induction xs) (auto split: if_splits)

lemma update_first_keys [simp]:
  "odoo_id (f x) = odoo_id x \<Longrightarrow> (\<And>y. odoo_id (f y) = odoo_id y) \<Longrightarrow>
   map odoo_id (update_first i f xs) = map odoo_id xs"
  by (induction xs) auto

lemma update_first_keys' [simp]:
  "map odoo_id (update_first i (\<lambda>x. x\<lparr>attrs := a, updated_at := u\<rparr>) xs) = map odoo_id xs"
  by (induction xs) auto

lemma map_if_key_absent:
  "k \<notin> set (map odoo_id xs) \<Longrightarrow> map (\<lambda>x. if odoo_id x = k then f x else x) xs = xs"
  by (induction xs) auto

lemma update_first_distinct:
  "distinct (map odoo_id xs) \<Longrightarrow>
   update_first i f xs = map (\<lambda>x. if odoo_id x = i then f x else x) xs"
proof (induction xs)
  case Nil
  then show ?case by simp
next
  case (Cons a xs)
  show ?case
  proof (cases "odoo_id a = i")
    case True
    then have "i \<notin> set (map odoo_id xs)" using Cons.prems by auto
    from map_if_key_absent [OF this, of f] show ?thesis using True by simp
  next
    case False
    then show ?thesis using Cons by simp
  qed
qed

lemma update_first_absent:
  "i \<notin> set (map odoo_id xs) \<Longrightarrow> update_first i f xs = xs"
  by (induction xs) auto

subsection \<open>One round of the loop\<close>

lemma upsert_Inl:
  assumes "upsert af utcnow mapper r (s, ni, nu) = Inl (e, s')"
  shows "s' = s"
  using assms autoflush_Inl(1) [of af utcnow s e s']
  by (auto simp: upsert_def split: sum.splits option.splits)

lemma upsert_Inr:
  assumes "upsert af utcnow mapper r (s, ni, nu) = Inr (s', ni', nu')"
  obtains (found) i s1 where "record_id r = Inr i" "autoflush af utcnow s = Inr s1"
      "i \<in> set (map odoo_id (tx s1))"
      "s' = s1\<lparr>tx := update_first i
                   (\<lambda>x. x\<lparr>attrs := mapper r, updated_at := Some (utcnow (ticks s1))\<rparr>) (tx s1),
                 ticks := Suc (ticks s1)\<rparr>"
      "ni' = ni" "nu' = Suc nu"
  | (new) i s1 where "record_id r = Inr i" "autoflush af utcnow s = Inr s1"
      "i \<notin> set (map odoo_id (tx s1))"
      "s' = s1\<lparr>pending := pending s1 @
               [\<lparr>odoo_id = i, attrs = mapper r, created_at = None, updated_at = None\<rparr>]\<rparr>"
      "ni' = Suc ni" "nu' = nu"
proof -
  obtain i where i: "record_id r = Inr i"
    using assms by (cases "record_id r") (auto simp: upsert_def)
  obtain s1 where s1: "autoflush af utcnow s = Inr s1"
    using assms i by (cases "autoflush af utcnow s") (auto simp: upsert_def)
  show thesis
  proof (cases "find (\<lambda>x. odoo_id x = i) (tx s1)")
    case None
    then have "i \<notin> set (map odoo_id (tx s1))" by (simp add: find_None_keys)
    then show ?thesis using new [OF i s1] assms i s1 None by (simp add: upsert_def)
  next
    case (Some x)
    then have "i \<in> set (map odoo_id (tx s1))" by (rule find_Some_keys)
    then show ?thesis using found [OF i s1] assms i s1 Some by (simp add: upsert_def)
  qed
qed

lemma upsert_loop_Inl_committed:
  "upsert_loop af utcnow mapper rs (s, ni, nu) = Inl (e, s') \<Longrightarrow> committed s' = committed s"
proof (induction rs arbitrary: s ni nu)
  case Nil
  then show ?case by simp
next
  case (Cons r rs)
  show ?case
  proof (cases "upsert af utcnow mapper r (s, ni, nu)")
    case (Inl a)
    then have "a = (e, s')" using Cons.prems by simp
    with Inl upsert_Inl show ?thesis by fastforce
  next
    case (Inr st)
    obtain s1 ni1 nu1 where st: "st = (s1, ni1, nu1)" by (cases st)
    have c: "committed s1 = committed s"
      using Inr [unfolded st] by (rule upsert_Inr) (auto dest: autoflush_Inr(1))
    have "upsert_loop af utcnow mapper rs (s1, ni1, nu1) = Inl (e, s')"
      using Cons.prems Inr st by simp
    from Cons.IH [OF this] c show ?thesis by simp
  qed
qed

text \<open>What the loop keeps, whatever the records: a rule for properties of the session
  and counters that every round preserves.\<close>

lemma upsert_loop_invariant:
  assumes "upsert_loop af utcnow mapper rs st = Inr st'"
    and "P st"
    and "\<And>r st st'. P st \<Longrightarrow> upsert af utcnow mapper r st = Inr st' \<Longrightarrow> P st'"
  shows "P st'"
  using assms(1,2)
proof (induction rs arbitrary: st)
  case Nil
  then show ?case by simp
next
  case (Cons r rs)
  then obtain st1 where 1: "upsert af utcnow mapper r st = Inr st1"
      and 2: "upsert_loop af utcnow mapper rs st1 = Inr st'"
    by (auto split: sum.splits)
  from Cons.IH [OF 2 assms(3) [OF Cons.prems(2) 1]] show ?case .
qed

lemma upsert_committed:
  assumes "upsert af utcnow mapper r (s, ni, nu) = Inr (s', ni', nu')"
  shows "committed s' = committed s" and "bulk_deletes s' = bulk_deletes s"
  using assms by (rule upsert_Inr; auto dest: autoflush_Inr(1,2))+

lemma upsert_distinct:
  assumes "upsert af utcnow mapper r (s, ni, nu) = Inr (s', ni', nu')"
    and "distinct (map odoo_id (tx s))"
  shows "distinct (map odoo_id (tx s'))"
  using assms(1)
  by (rule upsert_Inr) (use assms(2) in \<open>auto dest: autoflush_distinct\<close>)

lemma upsert_counts:
  assumes "upsert af utcnow mapper r (s, ni, nu) = Inr (s', ni', nu')"
  shows "ni' + nu' = Suc (ni + nu)"
  using assms by (rule upsert_Inr) auto

lemma upsert_keys:
  assumes "upsert af utcnow mapper r (s, ni, nu) = Inr (s', ni', nu')"
  obtains i where "record_id r = Inr i"
    "set (map odoo_id (tx s' @ pending s')) = insert i (set (map odoo_id (tx s @ pending s)))"
    "set (map odoo_id (pending s')) \<subseteq> insert i (set (map odoo_id (pending s)))"
proof -
  from assms show thesis
  proof (cases rule: upsert_Inr)
    case (found i s1)
    have k: "map odoo_id (tx s1 @ pending s1) = map odoo_id (tx s @ pending s)"
      by (rule autoflush_Inr(3) [OF found(2)])
    have "set (map odoo_id (tx s' @ pending s')) = insert i (set (map odoo_id (tx s @ pending s)))"
      using found(3,4) k [symmetric] by auto
    moreover have "set (map odoo_id (pending s')) \<subseteq> insert i (set (map odoo_id (pending s)))"
      using found(4) autoflush_Inr(5,6) [OF found(2)] by (cases af) auto
    ultimately show ?thesis using that found(1) by blast
  next
    case (new i s1)
    have k: "map odoo_id (tx s1 @ pending s1) = map odoo_id (tx s @ pending s)"
      by (rule autoflush_Inr(3) [OF new(2)])
    have "set (map odoo_id (tx s' @ pending s')) = insert i (set (map odoo_id (tx s @ pending s)))"
      using new(4) k [symmetric] by auto
    moreover have "set (map odoo_id (pending s')) \<subseteq> insert i (set (map odoo_id (pending s)))"
      using new(4) autoflush_Inr(5,6) [OF new(2)] by (cases af) auto
    ultimately show ?thesis using that new(1) by blast
  qed
qed

subsection \<open>The whole loop\<close>

lemma upsert_loop_Cons_Inr:
  assumes "upsert_loop af utcnow mapper (r # rs) (s, ni, nu) = Inr (s', ni', nu')"
  obtains s1 ni1 nu1 where "upsert af utcnow mapper r (s, ni, nu) = Inr (s1, ni1, nu1)"
    and "upsert_loop af utcnow mapper rs (s1, ni1, nu1) = Inr (s', ni', nu')"
  using assms by (auto split: sum.splits)

lemma upsert_loop_committed:
  "upsert_loop af utcnow mapper rs (s, ni, nu) = Inr (s', ni', nu') \<Longrightarrow> committed s' = committed s"
proof (induction rs arbitrary: s ni nu)
  case Nil
  then show ?case by simp
next
  case (Cons r rs)
  from Cons.prems show ?case
    by (rule upsert_loop_Cons_Inr) (use Cons.IH upsert_committed(1) in fastforce)
qed

lemma upsert_loop_bulk_deletes:
  "upsert_loop af utcnow mapper rs (s, ni, nu) = Inr (s', ni', nu') \<Longrightarrow>
   bulk_deletes s' = bulk_deletes s"
proof (induction rs arbitrary: s ni nu)
  case Nil
  then show ?case by simp
next
  case (Cons r rs)
  from Cons.prems show ?case
    by (rule upsert_loop_Cons_Inr) (use Cons.IH upsert_committed(2) in fastforce)
qed

lemma upsert_loop_counts:
  "upsert_loop af utcnow mapper rs (s, ni, nu) = Inr (s', ni', nu') \<Longrightarrow>
   ni' + nu' = ni + nu + length rs"
proof (induction rs arbitrary: s ni nu)
  case Nil
  then show ?case by simp
next
  case (Cons r rs)
  from Cons.prems show ?case
  proof (rule upsert_loop_Cons_Inr)
    fix s1 ni1 nu1
    assume 1: "upsert af utcnow mapper r (s, ni, nu) = Inr (s1, ni1, nu1)"
      and 2: "upsert_loop af utcnow mapper rs (s1, ni1, nu1) = Inr (s', ni', nu')"
    show ?thesis using Cons.IH [OF 2] upsert_counts [OF 1] by simp
  qed
qed

lemma upsert_loop_distinct:
  "upsert_loop af utcnow mapper rs (s, ni, nu) = Inr (s', ni', nu') \<Longrightarrow>
   distinct (map odoo_id (tx s)) \<Longrightarrow> distinct (map odoo_id (tx s'))"
proof (induction rs arbitrary: s ni nu)
  case Nil
  then show ?case by simp
next
  case (Cons r rs)
  from Cons.prems(1) show ?case
  proof (rule upsert_loop_Cons_Inr)
    fix s1 ni1 nu1
    assume 1: "upsert af utcnow mapper r (s, ni, nu) = Inr (s1, ni1, nu1)"
      and 2: "upsert_loop af utcnow mapper rs (s1, ni1, nu1) = Inr (s', ni', nu')"
    show ?thesis using Cons.IH [OF 2] upsert_distinct [OF 1 Cons.prems(2)] by simp
  qed
qed

text \<open>A loop that returns has met an integer key in every record.\<close>

lemma upsert_loop_keys:
  assumes "upsert_loop af utcnow mapper rs (s, ni, nu) = Inr (s', ni', nu')"
  shows "\<exists>ids. map record_id rs = map Inr ids \<and>
    set (map odoo_id (tx s' @ pending s')) = set ids \<union> set (map odoo_id (tx s @ pending s)) \<and>
    set (map odoo_id (pending s')) \<subseteq> set ids \<union> set (map odoo_id (pending s))"
  using assms
proof (induction rs arbitrary: s ni nu)
  case Nil
  then show ?case by simp
next
  case (Cons r rs)
  from Cons.prems
  obtain s1 ni1 nu1 where 1: "upsert af utcnow mapper r (s, ni, nu) = Inr (s1, ni1, nu1)"
    and 2: "upsert_loop af utcnow mapper rs (s1, ni1, nu1) = Inr (s', ni', nu')"
    by (rule upsert_loop_Cons_Inr)
  from 1 obtain i where i: "record_id r = Inr i"
    "set (map odoo_id (tx s1 @ pending s1)) = insert i (set (map odoo_id (tx s @ pending s)))"
    "set (map odoo_id (pending s1)) \<subseteq> insert i (set (map odoo_id (pending s)))"
    by (rule upsert_keys)
  from Cons.IH [OF 2] obtain ids where ids: "map record_id rs = map Inr ids"
    "set (map odoo_id (tx s' @ pending s')) = set ids \<union> set (map odoo_id (tx s1 @ pending s1))"
    "set (map odoo_id (pending s')) \<subseteq> set ids \<union> set (map odoo_id (pending s1))"
    by blast
  have "map record_id (r # rs) = map Inr (i # ids)" using i(1) ids(1) by simp
  moreover have "set (map odoo_id (tx s' @ pending s')) =
        set (i # ids) \<union> set (map odoo_id (tx s @ pending s))"
    using ids(2) i(2) by auto
  moreover have "set (map odoo_id (pending s')) \<subseteq> set (i # ids) \<union> set (map odoo_id (pending s))"
    using ids(3) i(3) by auto
  ultimately show ?case by blast
qed

lemma fetched_of_ids:
  "map record_id rs = map Inr ids \<Longrightarrow> fetched_odoo_ids rs = Inr (map PInt ids)"
proof (induction rs arbitrary: ids)
  case Nil
  then show ?case by simp
next
  case (Cons r rs)
  then obtain i ids' where ids: "ids = i # ids'" "record_id r = Inr i"
    "map record_id rs = map Inr ids'"
    by (cases ids) auto
  have "map_of r ''id'' = Some (PInt i)"
    using ids(2) by (auto simp: record_id_def split: option.splits pyval.splits)
  then show ?case using Cons.IH [OF ids(3)] ids(1) by simp
qed

lemma int_ids_PInt [simp]: "int_ids (map PInt ids) = ids"
  by (induction ids) simp_all

lemma ids_as_set:
  "map record_id rs = map Inr ids \<Longrightarrow> set ids = {i. \<exists>r \<in> set rs. record_id r = Inr i}"
proof (induction rs arbitrary: ids)
  case Nil
  then show ?case by simp
next
  case (Cons r rs)
  then obtain i ids' where ids: "ids = i # ids'" "record_id r = Inr i"
    "map record_id rs = map Inr ids'"
    by (cases ids) auto
  show ?case using Cons.IH [OF ids(3)] ids(1,2) by auto
qed

subsection \<open>After the loop: bulk delete and commit\<close>

lemma bulk_delete_Inr:
  assumes "bulk_delete af utcnow D s = Inr s'"
  obtains s1 where "autoflush af utcnow s = Inr s1"
    "s' = s1\<lparr>tx := filter (\<lambda>x. odoo_id x \<notin> D) (tx s1), bulk_deletes := bulk_deletes s1 @ [D]\<rparr>"
  using assms by (auto simp: bulk_delete_def split: sum.splits)

lemma bulk_delete_Inl:
  assumes "bulk_delete af utcnow D s = Inl (e, s')"
  shows "s' = s"
  using assms autoflush_Inl(1) [of af utcnow s e s']
  by (auto simp: bulk_delete_def split: sum.splits)

lemma commit_Inr:
  assumes "commit utcnow s = Inr s'"
  obtains s1 where "flush utcnow s = Inr s1" "s' = s1\<lparr>committed := tx s1\<rparr>"
  using assms by (auto simp: commit_def split: sum.splits)

lemma commit_Inl:
  assumes "commit utcnow s = Inl (e, s')"
  shows "s' = s"
  using assms flush_Inl(1) [of utcnow s e s']
  by (auto simp: commit_def split: sum.splits)

text \<open>The steps of a run that returned the counts.\<close>

lemma sync_rows_Inr:
  assumes "sync_rows af utcnow mapper rs db = Inr (res, db')" and "rs \<noteq> []"
  obtains fetched db1 ni nu db2 where
    "fetched_odoo_ids rs = Inr fetched"
    "upsert_loop af utcnow mapper rs (db, 0, 0) = Inr (db1, ni, nu)"
    "(if set (map odoo_id (tx db)) - set (int_ids fetched) \<noteq> {}
      then bulk_delete af utcnow (set (map odoo_id (tx db)) - set (int_ids fetched)) db1
      else Inr db1) = Inr db2"
    "commit utcnow db2 = Inr db'"
    "res = Synced \<lparr>inserted = ni, updated = nu,
                   deleted = card (set (map odoo_id (tx db)) - set (int_ids fetched)),
                   total = length rs\<rparr>"
proof -
  obtain fetched where f: "fetched_odoo_ids rs = Inr fetched"
    using assms by (cases "fetched_odoo_ids rs") (auto simp: sync_rows_def)
  obtain db1 ni nu where l: "upsert_loop af utcnow mapper rs (db, 0, 0) = Inr (db1, ni, nu)"
    using assms f by (cases "upsert_loop af utcnow mapper rs (db, 0, 0)") (auto simp: sync_rows_def)
  let ?D = "set (map odoo_id (tx db)) - set (int_ids fetched)"
  obtain db2 where d: "(if ?D \<noteq> {} then bulk_delete af utcnow ?D db1 else Inr db1) = Inr db2"
    using assms f l
    by (cases "if ?D \<noteq> {} then bulk_delete af utcnow ?D db1 else Inr db1")
       (auto simp: sync_rows_def Let_def split: if_splits)
  have c: "commit utcnow db2 = Inr db'"
    and r: "res = Synced \<lparr>inserted = ni, updated = nu, deleted = card ?D, total = length rs\<rparr>"
    using assms f l d
    by (auto simp: sync_rows_def Let_def split: if_splits sum.splits)
  from that [OF f l d c r] show thesis .
qed

lemma sync_rows_Inl_committed:
  assumes "sync_rows af utcnow mapper rs db = Inl (e, db')"
  shows "committed db' = committed db"
proof (cases "rs = []")
  case True
  then show ?thesis using assms by (simp add: sync_rows_def)
next
  case False
  show ?thesis
  proof (cases "fetched_odoo_ids rs")
    case (Inl a)
    then show ?thesis using assms False by (simp add: sync_rows_def)
  next
    case (Inr fetched)
    note f = Inr
    show ?thesis
    proof (cases "upsert_loop af utcnow mapper rs (db, 0, 0)")
      case (Inl a)
      then have "a = (e, db')" using assms False f by (simp add: sync_rows_def)
      with Inl upsert_loop_Inl_committed show ?thesis by fastforce
    next
      case (Inr st)
      obtain db1 ni nu where st: "st = (db1, ni, nu)" by (cases st)
      note l = Inr [unfolded st]
      have c1: "committed db1 = committed db" by (rule upsert_loop_committed [OF l])
      define D where "D = set (map odoo_id (tx db)) - set (int_ids fetched)"
      define del where "del = (if D \<noteq> {} then bulk_delete af utcnow D db1 else Inr db1)"
      have unfold: "sync_rows af utcnow mapper rs db =
         (case del of
            Inl e \<Rightarrow> Inl e
          | Inr db2 \<Rightarrow>
              (case commit utcnow db2 of
                 Inl e \<Rightarrow> Inl e
               | Inr db3 \<Rightarrow> Inr (Synced \<lparr>inserted = ni, updated = nu, deleted = card D,
                                           total = length rs\<rparr>, db3)))"
        using False f l unfolding sync_rows_def Let_def D_def del_def by simp
      show ?thesis
      proof (cases del)
        case (Inl a)
        then have "del = Inl (e, db')" using assms unfold by simp
        then have "db' = db1"
          using bulk_delete_Inl [of af utcnow D db1 e db'] by (auto simp: del_def split: if_splits)
        with c1 show ?thesis by simp
      next
        case (Inr db2)
        have c2: "committed db2 = committed db1"
          using Inr
          by (auto simp: del_def split: if_splits elim!: bulk_delete_Inr dest: autoflush_Inr(1))
        have "commit utcnow db2 = Inl (e, db')"
          using assms unfold Inr by (auto split: sum.splits)
        from commit_Inl [OF this] c1 c2 show ?thesis by simp
      qed
    qed
  qed
qed

lemma last_record_Nil [simp]: "last_record [] i = None"
  by (simp add: last_record_def)

lemma last_record_snoc [simp]:
  "last_record (rs @ [r]) i = (if record_id r = Inr i then Some r else last_record rs i)"
  by (simp add: last_record_def)

lemma find_Some_mem: "find P xs = Some x \<Longrightarrow> x \<in> set xs \<and> P x"
  by (induction xs) (auto split: if_splits)

lemma last_record_Some:
  "last_record rs i = Some r \<Longrightarrow> r \<in> set rs \<and> record_id r = Inr i"
  unfolding last_record_def using find_Some_mem [of "\<lambda>r. record_id r = Inr i" "rev rs" r] by simp

lemma last_record_None: "last_record rs i = None \<longleftrightarrow> (\<forall>r \<in> set rs. record_id r \<noteq> Inr i)"
  unfolding last_record_def by (auto simp: find_None_iff)

lemma stamp_key_attrs [simp]:
  "map (\<lambda>x. (odoo_id x, attrs x)) (stamp utcnow n xs) = map (\<lambda>x. (odoo_id x, attrs x)) xs"
  by (induction xs arbitrary: n) simp_all

lemma key_attrs_keys: "map fst (key_attrs s) = map odoo_id (tx s @ pending s)"
  by (simp add: key_attrs_def comp_def)

lemma autoflush_key_attrs:
  assumes "autoflush af utcnow s = Inr s1"
  shows "key_attrs s1 = key_attrs s"
proof (cases af)
  case True
  then have "flush utcnow s = Inr s1" using assms by (simp add: autoflush_def)
  from flush_Inr(3,4) [OF this] show ?thesis by (simp add: key_attrs_def)
next
  case False
  then show ?thesis using assms by (simp add: autoflush_def)
qed

lemma update_first_key_attrs:
  assumes "distinct (map odoo_id xs)"
  shows "map (\<lambda>x. (odoo_id x, attrs x)) (update_first i (\<lambda>x. x\<lparr>attrs := a, updated_at := u\<rparr>) xs)
       = map (\<lambda>x. if odoo_id x = i then (i, a) else (odoo_id x, attrs x)) xs"
  unfolding update_first_distinct [OF assms] map_map by (rule map_cong) auto

lemma attrs_current_upsert:
  assumes step: "upsert af utcnow mapper r (s, ni, nu) = Inr (s', ni', nu')"
    and inv: "attrs_current mapper done s"
  shows "attrs_current mapper (done @ [r]) s'"
  unfolding attrs_current_def
proof (intro impI ballI allI)
  fix p r'
  assume d': "distinct (map fst (key_attrs s'))"
    and p: "p \<in> set (key_attrs s')"
    and lr: "last_record (done @ [r]) (fst p) = Some r'"
  from step show "snd p = mapper r'"
  proof (cases rule: upsert_Inr)
    case (found i s1)
    have ka1: "key_attrs s1 = key_attrs s" by (rule autoflush_key_attrs [OF found(2)])
    have keys': "map fst (key_attrs s') = map fst (key_attrs s1)"
      using found(4) by (simp add: key_attrs_keys)
    then have d1: "distinct (map fst (key_attrs s1))" using d' by simp
    then have dtx: "distinct (map odoo_id (tx s1))" and
      dis: "set (map odoo_id (tx s1)) \<inter> set (map odoo_id (pending s1)) = {}"
      by (simp_all add: key_attrs_keys)
    have old: "\<forall>q \<in> set (key_attrs s1). \<forall>r. last_record done (fst q) = Some r \<longrightarrow> snd q = mapper r"
      using inv d1 ka1 by (simp add: attrs_current_def)
    have ka': "key_attrs s' =
        map (\<lambda>x. if odoo_id x = i then (i, mapper r) else (odoo_id x, attrs x)) (tx s1)
        @ map (\<lambda>x. (odoo_id x, attrs x)) (pending s1)"
      using found(4) by (simp add: key_attrs_def update_first_key_attrs [OF dtx])
    have pend: "odoo_id x \<noteq> i" if "x \<in> set (pending s1)" for x
      using dis found(3) that by auto
    have "p \<in> set (map (\<lambda>x. if odoo_id x = i then (i, mapper r) else (odoo_id x, attrs x)) (tx s1))
          \<or> p \<in> set (map (\<lambda>x. (odoo_id x, attrs x)) (pending s1))"
      using p unfolding ka' by simp
    then consider
        (hit) "p = (i, mapper r)"
      | (other) "fst p \<noteq> i" "p \<in> set (key_attrs s1)"
    proof
      assume "p \<in> set (map (\<lambda>x. if odoo_id x = i then (i, mapper r)
                else (odoo_id x, attrs x)) (tx s1))"
      then obtain x where x: "x \<in> set (tx s1)"
        "p = (if odoo_id x = i then (i, mapper r) else (odoo_id x, attrs x))"
        by auto
      show thesis
      proof (cases "odoo_id x = i")
        case True
        then show ?thesis using x(2) hit by simp
      next
        case False
        then have "fst p \<noteq> i" "p \<in> set (key_attrs s1)"
          using x by (simp_all add: key_attrs_def)
        then show ?thesis by (rule other)
      qed
    next
      assume "p \<in> set (map (\<lambda>x. (odoo_id x, attrs x)) (pending s1))"
      then obtain x where x: "x \<in> set (pending s1)" "p = (odoo_id x, attrs x)"
        by auto
      then have "fst p \<noteq> i" "p \<in> set (key_attrs s1)"
        using pend [OF x(1)] by (simp_all add: key_attrs_def)
      then show thesis by (rule other)
    qed
    then show ?thesis
    proof cases
      case hit
      then show ?thesis using lr found(1) by simp
    next
      case other
      then have "last_record done (fst p) = Some r'" using lr found(1) by simp
      with old other(2) show ?thesis by blast
    qed
  next
    case (new i s1)
    have ka1: "key_attrs s1 = key_attrs s" by (rule autoflush_key_attrs [OF new(2)])
    have ka': "key_attrs s' = key_attrs s1 @ [(i, mapper r)]"
      using new(4) by (simp add: key_attrs_def)
    then have d1: "distinct (map fst (key_attrs s1))" and fresh: "i \<notin> set (map fst (key_attrs s1))"
      using d' by simp_all
    have old: "\<forall>q \<in> set (key_attrs s1). \<forall>r. last_record done (fst q) = Some r \<longrightarrow> snd q = mapper r"
      using inv d1 ka1 by (simp add: attrs_current_def)
    from p ka' consider
        (hit) "p = (i, mapper r)"
      | (other) "fst p \<noteq> i" "p \<in> set (key_attrs s1)"
      using fresh by force
    then show ?thesis
    proof cases
      case hit
      then show ?thesis using lr new(1) by simp
    next
      case other
      then have "last_record done (fst p) = Some r'" using lr new(1) by simp
      with old other(2) show ?thesis by blast
    qed
  qed
qed

lemma attrs_current_loop:
  assumes "upsert_loop af utcnow mapper rs (s, ni, nu) = Inr (s', ni', nu')"
    and "attrs_current mapper done s"
  shows "attrs_current mapper (done @ rs) s'"
  using assms
proof (induction rs arbitrary: s ni nu "done")
  case Nil
  then show ?case by simp
next
  case (Cons r rs)
  from Cons.prems(1)
  obtain s1 ni1 nu1 where 1: "upsert af utcnow mapper r (s, ni, nu) = Inr (s1, ni1, nu1)"
    and 2: "upsert_loop af utcnow mapper rs (s1, ni1, nu1) = Inr (s', ni', nu')"
    by (rule upsert_loop_Cons_Inr)
  from Cons.IH [OF 2 attrs_current_upsert [OF 1 Cons.prems(2)]] show ?case by simp
qed

lemma filter_key_attrs:
  "map (\<lambda>x. (odoo_id x, attrs x)) (filter (\<lambda>x. odoo_id x \<notin> D) xs)
     = filter (\<lambda>p. fst p \<notin> D) (map (\<lambda>x. (odoo_id x, attrs x)) xs)"
  by (induction xs) simp_all

lemma filter_keys_disjoint:
  "set (map odoo_id xs) \<inter> D = {} \<Longrightarrow>
   filter (\<lambda>p. fst p \<notin> D) (map (\<lambda>x. (odoo_id x, attrs x)) xs) = map (\<lambda>x. (odoo_id x, attrs x)) xs"
  by (induction xs) auto

lemma flush_key_attrs:
  assumes "flush utcnow s = Inr s1"
  shows "map (\<lambda>x. (odoo_id x, attrs x)) (tx s1) = key_attrs s"
  using flush_Inr(3) [OF assms] by (simp add: key_attrs_def)

lemma flush_all_distinct:
  assumes "flush utcnow s = Inr s1" and "distinct (map odoo_id (tx s))"
  shows "distinct (map fst (key_attrs s))"
  using flush_Inr(1,2) [OF assms(1)] assms(2) by (auto simp: key_attrs_keys)

text \<open>The bulk delete (if any) and the commit that follow the loop.\<close>

lemma delete_and_commit:
  assumes del: "(if D \<noteq> {} then bulk_delete af utcnow D db1 else Inr db1) = Inr db2"
    and com: "commit utcnow db2 = Inr db'"
    and pend: "set (map odoo_id (pending db1)) \<inter> D = {}"
  shows "tx db' = committed db'" and "pending db' = []"
    and "map (\<lambda>x. (odoo_id x, attrs x)) (committed db') = filter (\<lambda>p. fst p \<notin> D) (key_attrs db1)"
    and "bulk_deletes db' = bulk_deletes db1 @ (if D = {} then [] else [D])"
    and "distinct (map odoo_id (tx db1)) \<Longrightarrow> distinct (map fst (key_attrs db1))"
proof -
  from com obtain s1 where fl: "flush utcnow db2 = Inr s1" and db': "db' = s1\<lparr>committed := tx s1\<rparr>"
    by (rule commit_Inr)
  show "tx db' = committed db'" and "pending db' = []"
    using db' flush_Inr(4) [OF fl] by simp_all
  have c: "map (\<lambda>x. (odoo_id x, attrs x)) (committed db') = key_attrs db2"
    using db' flush_key_attrs [OF fl] by simp
  have bd: "bulk_deletes db' = bulk_deletes db2"
    using db' flush_Inr(6) [OF fl] by simp
  show "map (\<lambda>x. (odoo_id x, attrs x)) (committed db') = filter (\<lambda>p. fst p \<notin> D) (key_attrs db1)"
   and "bulk_deletes db' = bulk_deletes db1 @ (if D = {} then [] else [D])"
   and "distinct (map odoo_id (tx db1)) \<Longrightarrow> distinct (map fst (key_attrs db1))"
  proof -
    show "map (\<lambda>x. (odoo_id x, attrs x)) (committed db') = filter (\<lambda>p. fst p \<notin> D) (key_attrs db1)"
    proof (cases "D = {}")
      case True
      then show ?thesis using del c by simp
    next
      case False
      then have "bulk_delete af utcnow D db1 = Inr db2" using del by simp
      then obtain sf where sf: "autoflush af utcnow db1 = Inr sf"
        and db2: "db2 = sf\<lparr>tx := filter (\<lambda>x. odoo_id x \<notin> D) (tx sf),
                          bulk_deletes := bulk_deletes sf @ [D]\<rparr>"
        by (rule bulk_delete_Inr)
      have "set (map odoo_id (pending sf)) \<inter> D = {}"
        using autoflush_Inr(5,6) [OF sf] pend by (cases af) auto
      then have "key_attrs db2 = filter (\<lambda>p. fst p \<notin> D) (key_attrs sf)"
        using db2 by (simp add: key_attrs_def filter_key_attrs filter_keys_disjoint)
      then show ?thesis using c autoflush_key_attrs [OF sf] by simp
    qed
    show "bulk_deletes db' = bulk_deletes db1 @ (if D = {} then [] else [D])"
    proof (cases "D = {}")
      case True
      then show ?thesis using del bd by simp
    next
      case False
      then have "bulk_delete af utcnow D db1 = Inr db2" using del by simp
      then obtain sf where sf: "autoflush af utcnow db1 = Inr sf"
        and db2: "db2 = sf\<lparr>tx := filter (\<lambda>x. odoo_id x \<notin> D) (tx sf),
                          bulk_deletes := bulk_deletes sf @ [D]\<rparr>"
        by (rule bulk_delete_Inr)
      show ?thesis using False bd db2 autoflush_Inr(2) [OF sf] by simp
    qed
    show "distinct (map fst (key_attrs db1))" if dtx: "distinct (map odoo_id (tx db1))"
    proof (cases "D = {}")
      case True
      then have "flush utcnow db1 = Inr s1" using del fl by simp
      from flush_all_distinct [OF this dtx] show ?thesis .
    next
      case False
      then have "bulk_delete af utcnow D db1 = Inr db2" using del by simp
      then obtain sf where sf: "autoflush af utcnow db1 = Inr sf"
        and db2: "db2 = sf\<lparr>tx := filter (\<lambda>x. odoo_id x \<notin> D) (tx sf),
                          bulk_deletes := bulk_deletes sf @ [D]\<rparr>"
        by (rule bulk_delete_Inr)
      show ?thesis
      proof (cases af)
        case True
        then have "flush utcnow db1 = Inr sf" using sf by (simp add: autoflush_def)
        from flush_all_distinct [OF this dtx] show ?thesis .
      next
        case False
        then have sf_eq: "sf = db1" using autoflush_Inr(5) [OF sf] by simp
        have "distinct (map odoo_id (pending db1))"
          and "set (map odoo_id (pending db1)) \<inter> set (map odoo_id (filter (\<lambda>x. odoo_id x \<notin> D) (tx db1))) = {}"
          using flush_Inr(1,2) [OF fl] db2 sf_eq by simp_all
        then show ?thesis using dtx pend by (auto simp: key_attrs_keys)
      qed
    qed
  qed
qed

text \<open>What a run that returned the counts has done, from a session with nothing pending.\<close>

lemma sync_rows_Synced:
  assumes run: "sync_rows af utcnow mapper rs db = Inr (res, db')" and ne: "rs \<noteq> []"
    and fresh: "pending db = []"
  obtains ids ni nu where
    "map record_id rs = map Inr ids"
    "res = Synced \<lparr>inserted = ni, updated = nu,
                   deleted = card (set (map odoo_id (tx db)) - set ids), total = length rs\<rparr>"
    "ni + nu = length rs"
    "set (map odoo_id (committed db')) = set ids"
    "bulk_deletes db' = bulk_deletes db @
       (if set (map odoo_id (tx db)) - set ids = {} then [] else [set (map odoo_id (tx db)) - set ids])"
    "tx db' = committed db'" "pending db' = []"
    "distinct (map odoo_id (tx db)) \<Longrightarrow> distinct (map odoo_id (committed db'))"
    "distinct (map odoo_id (tx db)) \<Longrightarrow>
       \<forall>x \<in> set (committed db'). \<forall>r. last_record rs (odoo_id x) = Some r \<longrightarrow> attrs x = mapper r"
proof -
  from run ne obtain fetched db1 ni nu db2 where
    f: "fetched_odoo_ids rs = Inr fetched"
    and l: "upsert_loop af utcnow mapper rs (db, 0, 0) = Inr (db1, ni, nu)"
    and d: "(if set (map odoo_id (tx db)) - set (int_ids fetched) \<noteq> {}
      then bulk_delete af utcnow (set (map odoo_id (tx db)) - set (int_ids fetched)) db1
      else Inr db1) = Inr db2"
    and c: "commit utcnow db2 = Inr db'"
    and r: "res = Synced \<lparr>inserted = ni, updated = nu,
                   deleted = card (set (map odoo_id (tx db)) - set (int_ids fetched)),
                   total = length rs\<rparr>"
    by (rule sync_rows_Inr)
  from upsert_loop_keys [OF l] obtain ids where ids: "map record_id rs = map Inr ids"
    and keys1: "set (map odoo_id (tx db1 @ pending db1)) = set ids \<union> set (map odoo_id (tx db @ pending db))"
    and pend1: "set (map odoo_id (pending db1)) \<subseteq> set ids \<union> set (map odoo_id (pending db))"
    by blast
  have fetched: "int_ids fetched = ids"
    using fetched_of_ids [OF ids] f by auto
  define D where "D = set (map odoo_id (tx db)) - set ids"
  have d': "(if D \<noteq> {} then bulk_delete af utcnow D db1 else Inr db1) = Inr db2"
    using d unfolding D_def fetched .
  have pend: "set (map odoo_id (pending db1)) \<inter> D = {}"
    using pend1 fresh by (auto simp: D_def)
  note fin = delete_and_commit [OF d' c pend]
  have cnt: "ni + nu = length rs" using upsert_loop_counts [OF l] by simp
  have "set (map fst (map (\<lambda>x. (odoo_id x, attrs x)) (committed db'))) =
        set (map fst (filter (\<lambda>p. fst p \<notin> D) (key_attrs db1)))"
    using fin(3) by simp
  moreover have "set (map fst (filter (\<lambda>p. fst p \<notin> D) (key_attrs db1))) = set (map fst (key_attrs db1)) - D"
    by auto
  ultimately have "set (map odoo_id (committed db')) = set (map odoo_id (tx db1 @ pending db1)) - D"
    by (simp add: key_attrs_keys comp_def)
  then have keys: "set (map odoo_id (committed db')) = set ids"
    using keys1 fresh by (auto simp: D_def)
  have bd: "bulk_deletes db' = bulk_deletes db @ (if D = {} then [] else [D])"
    using fin(4) upsert_loop_bulk_deletes [OF l] by simp
  have dist: "distinct (map odoo_id (committed db'))" if dtx: "distinct (map odoo_id (tx db))"
  proof -
    have "distinct (map fst (key_attrs db1))"
      by (rule fin(5) [OF upsert_loop_distinct [OF l dtx]])
    then have "distinct (map fst (filter (\<lambda>p. fst p \<notin> D) (key_attrs db1)))"
      by (rule distinct_map_filter)
    then have "distinct (map fst (map (\<lambda>x. (odoo_id x, attrs x)) (committed db')))"
      using fin(3) by simp
    then show ?thesis by (simp add: comp_def)
  qed
  have att: "\<forall>x \<in> set (committed db'). \<forall>r. last_record rs (odoo_id x) = Some r \<longrightarrow> attrs x = mapper r"
    if dtx: "distinct (map odoo_id (tx db))"
  proof (intro ballI allI impI)
    fix x r
    assume x: "x \<in> set (committed db')" and lr: "last_record rs (odoo_id x) = Some r"
    have d1: "distinct (map fst (key_attrs db1))"
      by (rule fin(5) [OF upsert_loop_distinct [OF l dtx]])
    have "attrs_current mapper [] db" by (simp add: attrs_current_def)
    from attrs_current_loop [OF l this] have cur: "attrs_current mapper rs db1" by simp
    have "(odoo_id x, attrs x) \<in> set (map (\<lambda>x. (odoo_id x, attrs x)) (committed db'))"
      using x by force
    then have "(odoo_id x, attrs x) \<in> set (key_attrs db1)"
      unfolding fin(3) by simp
    with cur d1 lr show "attrs x = mapper r"
      unfolding attrs_current_def by fastforce
  qed
  show thesis
    using that [OF ids r [unfolded fetched] cnt keys bd [unfolded D_def] fin(1,2)] dist att
    by blast
qed

subsection \<open>A run as a whole\<close>

lemma get_all_loop_one_page:
  "length records < 100 \<Longrightarrow>
   get_all_loop (static_remote records) 100 [] 0 [] = Some (Inr records, [0])"
  using get_all_loop_stop [where get_page = "static_remote records" and w = "[]" and limit = 100
      and offset = 0 and page = records and w' = "[0]" and acc = "[]"]
  by (simp add: static_remote_def)

lemma closed_session [simp]:
  "committed (close s) = committed s" "bulk_deletes (close s) = bulk_deletes s"
  "tx (close s) = committed s" "pending (close s) = []"
  "committed (rollback s) = committed s" "bulk_deletes (rollback s) = bulk_deletes s"
  by (simp_all add: close_def rollback_def)

lemma SessionLocal_simps [simp]:
  "committed (SessionLocal t) = t" "tx (SessionLocal t) = t" "pending (SessionLocal t) = []"
  "bulk_deletes (SessionLocal t) = []"
  by (simp_all add: SessionLocal_def)

lemma run_sync_cases:
  assumes "run_sync af utcnow mapper fetched table = Some (out, w', db')"
  obtains
    (fetch_error) e where "fetched = Some (Inl e, w')" "out = Inl e" "committed db' = table"
  | (nothing) "fetched = Some (Inr [], w')" "out = Inr NoRecordsFound" "committed db' = table"
      "bulk_deletes db' = []"
  | (error) rs e where "fetched = Some (Inr rs, w')" "rs \<noteq> []" "out = Inl e"
      "committed db' = table"
  | (synced) rs res dbc where "fetched = Some (Inr rs, w')" "rs \<noteq> []" "out = Inr res"
      "sync_rows af utcnow mapper rs (SessionLocal table) = Inr (res, dbc)"
      "db' = close dbc"
proof -
  from assms obtain fo w1 where fetched: "fetched = Some (fo, w1)"
    by (cases fetched) (auto simp: run_sync_def)
  show thesis
  proof (cases fo)
    case (Inl e)
    then have "fetched = Some (Inl e, w')" "out = Inl e" "committed db' = table"
      using assms fetched by (auto simp: run_sync_def)
    then show ?thesis by (rule fetch_error)
  next
    case (Inr rs)
    show ?thesis
    proof (cases "sync_rows af utcnow mapper rs (SessionLocal table)")
      case (Inl a)
      obtain e dbe where a: "a = (e, dbe)" by (cases a)
      have "committed dbe = table"
        using sync_rows_Inl_committed [of af utcnow mapper rs "SessionLocal table" e dbe] Inl a
        by simp
      moreover have "rs \<noteq> []" using Inl by (auto simp: sync_rows_def)
      moreover have "fetched = Some (Inr rs, w')" "out = Inl e" "committed db' = committed dbe"
        using assms fetched Inr Inl a by (auto simp: run_sync_def)
      ultimately show ?thesis using error [of rs e] by simp
    next
      case (Inr b)
      note ok = Inr
      obtain res dbc where b: "b = (res, dbc)" by (cases b)
      show ?thesis
      proof (cases "rs = []")
        case True
        then have "res = NoRecordsFound" "dbc = SessionLocal table"
          using ok b by (simp_all add: sync_rows_def)
        then have "fetched = Some (Inr [], w')" "out = Inr NoRecordsFound"
          "committed db' = table" "bulk_deletes db' = []"
          using assms fetched \<open>fo = Inr rs\<close> ok b True by (auto simp: run_sync_def)
        then show ?thesis by (rule nothing)
      next
        case False
        moreover have "fetched = Some (Inr rs, w')" "out = Inr res" "db' = close dbc"
          using assms fetched \<open>fo = Inr rs\<close> ok b by (auto simp: run_sync_def)
        ultimately show ?thesis using ok b synced [of rs res dbc] by simp
      qed
    qed
  qed
qed

lemma run_sync_Synced:
  assumes "run_sync af utcnow mapper (Some (Inr rs, w1)) table = Some (Inr (Synced res), w', db')"
  obtains dbc where "rs \<noteq> []"
    "sync_rows af utcnow mapper rs (SessionLocal table) = Inr (Synced res, dbc)" "db' = close dbc"
  using assms by (rule run_sync_cases) (auto simp: sync_rows_def split: if_splits)

section \<open>Reconciliation: what a run does\<close>

lemma run_sync_counts:
  assumes "run_sync af utcnow mapper (Some (Inr rs, w1)) table = Some (Inr (Synced res), w', db')"
  shows "inserted res + updated res = total res \<and> total res = length rs \<and>
         deleted res = card (set (map odoo_id table) - {i. \<exists>r \<in> set rs. record_id r = Inr i})"
proof -
  from assms obtain dbc where ne: "rs \<noteq> []"
    and run: "sync_rows af utcnow mapper rs (SessionLocal table) = Inr (Synced res, dbc)"
    by (rule run_sync_Synced)
  from run ne obtain ids ni nu where ids: "map record_id rs = map Inr ids"
    and res: "Synced res = Synced \<lparr>inserted = ni, updated = nu,
                   deleted = card (set (map odoo_id (tx (SessionLocal table))) - set ids),
                   total = length rs\<rparr>"
    and cnt: "ni + nu = length rs"
    by (rule sync_rows_Synced) simp_all
  show ?thesis using res cnt ids_as_set [OF ids] by simp
qed

text \<open>
  C10.  Every run that returns the counts (which it does only when at least one record
  was fetched) reports \<open>inserted + updated = total\<close>, with \<open>total\<close> the number of
  fetched records and \<open>deleted\<close> the number of local keys that are not the key of a
  fetched record; for the contacts and for the invoices.
\<close>

theorem C10_counts:
  "(get_all_contacts get_contacts w = Some (Inr odoo_contacts, w1) \<and>
    sync_contacts_async get_contacts af utcnow fromisoformat w contacts
      = Some (Inr (Synced res), w', db')
    \<longrightarrow> inserted res + updated res = total res \<and> total res = length odoo_contacts \<and>
        deleted res = card (set (map odoo_id contacts)
                            - {i. \<exists>r \<in> set odoo_contacts. record_id r = Inr i}))
   \<and>
   (get_all_invoices get_invoices w = Some (Inr odoo_invoices, w1) \<and>
    sync_invoices_async get_invoices af utcnow fromisoformat w invoices
      = Some (Inr (Synced res2), w2, db2)
    \<longrightarrow> inserted res2 + updated res2 = total res2 \<and> total res2 = length odoo_invoices \<and>
        deleted res2 = card (set (map odoo_id invoices)
                            - {i. \<exists>r \<in> set odoo_invoices. record_id r = Inr i}))"
  using run_sync_counts [of af utcnow "contact_mapper fromisoformat" odoo_contacts w1 contacts res w' db']
    run_sync_counts [of af utcnow "invoice_mapper fromisoformat" odoo_invoices w1 invoices res2 w2 db2]
  by (auto simp: sync_contacts_async_def sync_invoices_async_def)

lemma demo_fetch:
  "get_all_contacts (static_remote [demo_contact 1, demo_contact 2, demo_contact 3]) []
     = Some (Inr [demo_contact 1, demo_contact 2, demo_contact 3], [0])"
  "get_all_invoices (static_remote [demo_contact 1, demo_contact 2, demo_contact 3]) []
     = Some (Inr [demo_contact 1, demo_contact 2, demo_contact 3], [0])"
  by (simp_all add: get_all_contacts_def get_all_invoices_def get_all_loop_one_page)

lemmas eval_defs = run_sync_def sync_rows_def upsert_def record_id_def autoflush_def flush_def
  bulk_delete_def commit_def close_def rollback_def SessionLocal_def Let_def
  fetched_odoo_ids.simps demo_contact_def demo_contact_row_def demo_utcnow_def

lemma demo_run:
  "sync_contacts_async (static_remote [demo_contact 1, demo_contact 2, demo_contact 3]) af
      demo_utcnow demo_fromisoformat []
      [demo_contact_row 2, demo_contact_row 3, demo_contact_row 4]
   = Some (Inr (Synced \<lparr>inserted = 1, updated = 2, deleted = 1, total = 3\<rparr>), [0],
       \<lparr>committed =
          [\<lparr>odoo_id = 2,
            attrs = \<lparr>name = PStr ''Ada'', email = PNone, phone = PNone, write_date = Some 500\<rparr>,
            created_at = Some 1, updated_at = Some (if af then 1002 else 1000)\<rparr>,
           \<lparr>odoo_id = 3,
            attrs = \<lparr>name = PStr ''Ada'', email = PNone, phone = PNone, write_date = Some 500\<rparr>,
            created_at = Some 1, updated_at = Some (if af then 1003 else 1001)\<rparr>,
           \<lparr>odoo_id = 1,
            attrs = \<lparr>name = PStr ''Ada'', email = PNone, phone = PNone, write_date = Some 500\<rparr>,
            created_at = Some (if af then 1000 else 1002),
            updated_at = Some (if af then 1001 else 1003)\<rparr>],
        tx =
          [\<lparr>odoo_id = 2,
            attrs = \<lparr>name = PStr ''Ada'', email = PNone, phone = PNone, write_date = Some 500\<rparr>,
            created_at = Some 1, updated_at = Some (if af then 1002 else 1000)\<rparr>,
           \<lparr>odoo_id = 3,
            attrs = \<lparr>name = PStr ''Ada'', email = PNone, phone = PNone, write_date = Some 500\<rparr>,
            created_at = Some 1, updated_at = Some (if af then 1003 else 1001)\<rparr>,
           \<lparr>odoo_id = 1,
            attrs = \<lparr>name = PStr ''Ada'', email = PNone, phone = PNone, write_date = Some 500\<rparr>,
            created_at = Some (if af then 1000 else 1002),
            updated_at = Some (if af then 1001 else 1003)\<rparr>],
        pending = [], ticks = 4, bulk_deletes = [{4}]\<rparr>)"
  unfolding sync_contacts_async_def demo_fetch
  by (cases af)
     (simp_all add: eval_defs contact_mapper_def dict_get_def
        py_or_def odoo_value_def parse_write_date_def replace_Z_def demo_fromisoformat_def
      del: set_filter)

lemma demo_invoice_fetch:
  "get_all_invoices (static_remote [demo_invoice 7]) [] = Some (Inr [demo_invoice 7], [0])"
  by (simp add: get_all_invoices_def get_all_loop_one_page)

lemma demo_invoice_mapped:
  "invoice_mapper demo_fromisoformat (demo_invoice i) =
     \<lparr>inv_name = PStr ''INV/7'', inv_move_type = PStr ''out_invoice'',
      inv_invoice_date = None, inv_partner_id = PInt 7, inv_partner_name = PStr ''Acme'',
      inv_amount_total = PBool False, inv_amount_residual = PNone, inv_state = PBool False,
      inv_currency_id = PNone, inv_currency_name = PNone, inv_write_date = None,
      inv_create_date = None\<rparr>"
  by (simp add: invoice_mapper_def demo_invoice_def dict_get_def py_or_def parse_datetime_def)

lemma demo_invoice_id: "map_of (demo_invoice i) ''id'' = Some (PInt i)"
  by (simp add: demo_invoice_def)

lemmas eval_session = run_sync_def sync_rows_def upsert_def autoflush_def flush_def
  bulk_delete_def commit_def close_def rollback_def SessionLocal_def Let_def

lemma demo_invoice_run:
  "sync_invoices_async (static_remote [demo_invoice 7]) af demo_utcnow demo_fromisoformat []
      [demo_invoice_row 7, demo_invoice_row 8]
   = Some (Inr (Synced \<lparr>inserted = 0, updated = 1, deleted = 1, total = 1\<rparr>), [0],
       \<lparr>committed =
          [\<lparr>odoo_id = 7, attrs = invoice_mapper demo_fromisoformat (demo_invoice 7),
            created_at = Some 1, updated_at = Some 1000\<rparr>],
        tx =
          [\<lparr>odoo_id = 7, attrs = invoice_mapper demo_fromisoformat (demo_invoice 7),
            created_at = Some 1, updated_at = Some 1000\<rparr>],
        pending = [], ticks = 1, bulk_deletes = [{8}]\<rparr>)"
  unfolding sync_invoices_async_def demo_invoice_fetch
  by (simp add: eval_session record_id_def demo_invoice_id demo_invoice_row_def demo_utcnow_def
        del: set_filter)

lemma demo_contacts_fetch:
  "get_all_contacts (static_remote demo_contacts) [] = Some (Inr demo_contacts, [0])"
  unfolding demo_contacts_def by (rule demo_fetch(1))

lemma demo_contacts_ids:
  "{i. \<exists>r \<in> set demo_contacts. record_id r = Inr i} = {1, 2, 3}"
  by (auto simp: demo_contacts_def demo_contact_def record_id_def)

lemma demo_invoice_ids:
  "{i. \<exists>r \<in> set [demo_invoice 7]. record_id r = Inr i} = {7}"
  by (auto simp: record_id_def demo_invoice_id)

theorem C10_counts_witness:
  "get_all_contacts (static_remote demo_contacts) [] = Some (Inr demo_contacts, [0])
   \<and> (\<exists>db'. sync_contacts_async (static_remote demo_contacts) False demo_utcnow
              demo_fromisoformat [] demo_contact_table
            = Some (Inr (Synced \<lparr>inserted = 1, updated = 2, deleted = 1, total = 3\<rparr>), [0], db'))
   \<and> card (set (map odoo_id demo_contact_table)
            - {i. \<exists>r \<in> set demo_contacts. record_id r = Inr i}) = 1
   \<and> length demo_contacts = 3
   \<and> get_all_invoices (static_remote [demo_invoice 7]) [] = Some (Inr [demo_invoice 7], [0])
   \<and> (\<exists>db'. sync_invoices_async (static_remote [demo_invoice 7]) False demo_utcnow
              demo_fromisoformat [] [demo_invoice_row 7, demo_invoice_row 8]
            = Some (Inr (Synced \<lparr>inserted = 0, updated = 1, deleted = 1, total = 1\<rparr>), [0], db'))
   \<and> card (set (map odoo_id [demo_invoice_row 7, demo_invoice_row 8])
            - {i. \<exists>r \<in> set [demo_invoice 7]. record_id r = Inr i}) = 1"
proof -
  obtain dbc where c: "sync_contacts_async (static_remote demo_contacts) False demo_utcnow
        demo_fromisoformat [] demo_contact_table
      = Some (Inr (Synced \<lparr>inserted = 1, updated = 2, deleted = 1, total = 3\<rparr>), [0], dbc)"
    using demo_run [of False, folded demo_contacts_def demo_contact_table_def] by blast
  obtain dbi where i: "sync_invoices_async (static_remote [demo_invoice 7]) False demo_utcnow
        demo_fromisoformat [] [demo_invoice_row 7, demo_invoice_row 8]
      = Some (Inr (Synced \<lparr>inserted = 0, updated = 1, deleted = 1, total = 1\<rparr>), [0], dbi)"
    using demo_invoice_run [of False] by blast
  have "card (set (map odoo_id demo_contact_table)
            - {i. \<exists>r \<in> set demo_contacts. record_id r = Inr i}) = 1
      \<and> length demo_contacts = 3
      \<and> card (set (map odoo_id [demo_invoice_row 7, demo_invoice_row 8])
            - {i. \<exists>r \<in> set [demo_invoice 7]. record_id r = Inr i}) = 1"
    using C10_counts [where get_contacts = "static_remote demo_contacts" and w = "[]"
        and odoo_contacts = demo_contacts and ?w1.0 = "[0]" and af = False
        and utcnow = demo_utcnow and fromisoformat = demo_fromisoformat
        and contacts = demo_contact_table
        and res = "\<lparr>inserted = 1, updated = 2, deleted = 1, total = 3\<rparr>" and w' = "[0]"
        and db' = dbc and ?db2.0 = dbi
        and get_invoices = "static_remote [demo_invoice 7]"
        and odoo_invoices = "[demo_invoice 7]"
        and invoices = "[demo_invoice_row 7, demo_invoice_row 8]"
        and ?res2.0 = "\<lparr>inserted = 0, updated = 1, deleted = 1, total = 1\<rparr>" and ?w2.0 = "[0]"]
      demo_contacts_fetch demo_invoice_fetch c i
    by simp
  with demo_contacts_fetch demo_invoice_fetch c i show ?thesis by blast
qed

text \<open>Rows left by a run that fetched something: none has a key outside the fetch.\<close>

lemma run_sync_deletes:
  assumes run: "run_sync af utcnow mapper (Some (Inr rs, w1)) table = Some (Inr res, w', db')"
    and ne: "rs \<noteq> []"
  shows "(\<forall>x \<in> set (committed db'). \<exists>r \<in> set rs. record_id r = Inr (odoo_id x)) \<and>
    bulk_deletes db' =
      (if set (map odoo_id table) \<subseteq> {i. \<exists>r \<in> set rs. record_id r = Inr i} then []
       else [set (map odoo_id table) - {i. \<exists>r \<in> set rs. record_id r = Inr i}])"
proof -
  from run obtain dbc where sr: "sync_rows af utcnow mapper rs (SessionLocal table) = Inr (res, dbc)"
    and db': "db' = close dbc"
    by (rule run_sync_cases) (use ne in auto)
  from sr ne obtain ids where ids: "map record_id rs = map Inr ids"
    and keys: "set (map odoo_id (committed dbc)) = set ids"
    and bd: "bulk_deletes dbc = bulk_deletes (SessionLocal table) @
       (if set (map odoo_id (tx (SessionLocal table))) - set ids = {} then []
        else [set (map odoo_id (tx (SessionLocal table))) - set ids])"
    by (rule sync_rows_Synced) simp_all
  note s = ids_as_set [OF ids]
  have "\<forall>x \<in> set (committed db'). \<exists>r \<in> set rs. record_id r = Inr (odoo_id x)"
    using keys s db' by auto
  moreover have "bulk_deletes db' =
      (if set (map odoo_id table) \<subseteq> {i. \<exists>r \<in> set rs. record_id r = Inr i} then []
       else [set (map odoo_id table) - {i. \<exists>r \<in> set rs. record_id r = Inr i}])"
    using bd db' unfolding s by simp
  ultimately show ?thesis by blast
qed

lemma run_sync_nothing:
  "run_sync af utcnow mapper (Some (Inr [], w1)) table
     = Some (Inr NoRecordsFound, w1,
         \<lparr>committed = table, tx = table, pending = [], ticks = 0, bulk_deletes = []\<rparr>)"
  by (simp add: run_sync_def sync_rows_def SessionLocal_def close_def)

text \<open>
  C1 (as amended).  When the fetch returned at least one record and the run returns,
  no row is left in the table whose key is not the key of a fetched record, and the
  rows were removed by one bulk DELETE on exactly the absent keys (none when there
  is nothing to delete).  When the fetch returned no record the run returns the
  "nothing found" result at once: the table is as it was and no DELETE was issued.
  For the contacts and for the invoices.
\<close>

theorem C1_absent_rows_deleted:
  "(get_all_contacts get_contacts w = Some (Inr odoo_contacts, w1) \<and> odoo_contacts \<noteq> [] \<and>
    sync_contacts_async get_contacts af utcnow fromisoformat w contacts = Some (Inr res, w', db')
    \<longrightarrow> (\<forall>x \<in> set (committed db'). \<exists>r \<in> set odoo_contacts. record_id r = Inr (odoo_id x)) \<and>
        bulk_deletes db' =
          (if set (map odoo_id contacts) \<subseteq> {i. \<exists>r \<in> set odoo_contacts. record_id r = Inr i}
           then []
           else [set (map odoo_id contacts)
                   - {i. \<exists>r \<in> set odoo_contacts. record_id r = Inr i}]))
   \<and>
   (get_all_invoices get_invoices w = Some (Inr odoo_invoices, w1) \<and> odoo_invoices \<noteq> [] \<and>
    sync_invoices_async get_invoices af utcnow fromisoformat w invoices = Some (Inr res2, w2, db2)
    \<longrightarrow> (\<forall>x \<in> set (committed db2). \<exists>r \<in> set odoo_invoices. record_id r = Inr (odoo_id x)) \<and>
        bulk_deletes db2 =
          (if set (map odoo_id invoices) \<subseteq> {i. \<exists>r \<in> set odoo_invoices. record_id r = Inr i}
           then []
           else [set (map odoo_id invoices)
                   - {i. \<exists>r \<in> set odoo_invoices. record_id r = Inr i}]))
   \<and>
   (get_all_contacts get_contacts w = Some (Inr [], w1)
    \<longrightarrow> sync_contacts_async get_contacts af utcnow fromisoformat w contacts
        = Some (Inr NoRecordsFound, w1,
            \<lparr>committed = contacts, tx = contacts, pending = [], ticks = 0, bulk_deletes = []\<rparr>))
   \<and>
   (get_all_invoices get_invoices w = Some (Inr [], w1)
    \<longrightarrow> sync_invoices_async get_invoices af utcnow fromisoformat w invoices
        = Some (Inr NoRecordsFound, w1,
            \<lparr>committed = invoices, tx = invoices, pending = [], ticks = 0, bulk_deletes = []\<rparr>))"
proof (intro conjI impI)
  assume a: "get_all_contacts get_contacts w = Some (Inr odoo_contacts, w1) \<and> odoo_contacts \<noteq> [] \<and>
    sync_contacts_async get_contacts af utcnow fromisoformat w contacts = Some (Inr res, w', db')"
  then have "run_sync af utcnow (contact_mapper fromisoformat) (Some (Inr odoo_contacts, w1)) contacts
             = Some (Inr res, w', db')"
    by (auto simp: sync_contacts_async_def)
  from run_sync_deletes [OF this] a
  show "\<forall>x \<in> set (committed db'). \<exists>r \<in> set odoo_contacts. record_id r = Inr (odoo_id x)"
    and "bulk_deletes db' =
          (if set (map odoo_id contacts) \<subseteq> {i. \<exists>r \<in> set odoo_contacts. record_id r = Inr i}
           then []
           else [set (map odoo_id contacts)
                   - {i. \<exists>r \<in> set odoo_contacts. record_id r = Inr i}])"
    by blast+
next
  assume a: "get_all_invoices get_invoices w = Some (Inr odoo_invoices, w1) \<and> odoo_invoices \<noteq> [] \<and>
    sync_invoices_async get_invoices af utcnow fromisoformat w invoices = Some (Inr res2, w2, db2)"
  then have "run_sync af utcnow (invoice_mapper fromisoformat) (Some (Inr odoo_invoices, w1)) invoices
             = Some (Inr res2, w2, db2)"
    by (auto simp: sync_invoices_async_def)
  from run_sync_deletes [OF this] a
  show "\<forall>x \<in> set (committed db2). \<exists>r \<in> set odoo_invoices. record_id r = Inr (odoo_id x)"
    and "bulk_deletes db2 =
          (if set (map odoo_id invoices) \<subseteq> {i. \<exists>r \<in> set odoo_invoices. record_id r = Inr i}
           then []
           else [set (map odoo_id invoices)
                   - {i. \<exists>r \<in> set odoo_invoices. record_id r = Inr i}])"
    by blast+
next
  assume "get_all_contacts get_contacts w = Some (Inr [], w1)"
  then show "sync_contacts_async get_contacts af utcnow fromisoformat w contacts
        = Some (Inr NoRecordsFound, w1,
            \<lparr>committed = contacts, tx = contacts, pending = [], ticks = 0, bulk_deletes = []\<rparr>)"
    by (simp add: sync_contacts_async_def run_sync_nothing)
next
  assume "get_all_invoices get_invoices w = Some (Inr [], w1)"
  then show "sync_invoices_async get_invoices af utcnow fromisoformat w invoices
        = Some (Inr NoRecordsFound, w1,
            \<lparr>committed = invoices, tx = invoices, pending = [], ticks = 0, bulk_deletes = []\<rparr>)"
    by (simp add: sync_invoices_async_def run_sync_nothing)
qed

lemma demo_empty_fetch:
  "get_all_contacts (static_remote []) [] = Some (Inr [], [0])"
  "get_all_invoices (static_remote []) [] = Some (Inr [], [0])"
  by (simp_all add: get_all_contacts_def get_all_invoices_def get_all_loop_one_page)

text \<open>
  C1 as stated fails on an empty fetch: the local row with key 4 is absent from the
  (empty) set of fetched keys and is still in the table after the run.
\<close>

theorem C1_counterexample:
  "get_all_contacts (static_remote []) [] = Some (Inr [], [0]) \<and>
   sync_contacts_async (static_remote []) True demo_utcnow demo_fromisoformat [] [demo_contact_row 4]
     = Some (Inr NoRecordsFound, [0],
         \<lparr>committed = [demo_contact_row 4], tx = [demo_contact_row 4], pending = [], ticks = 0,
          bulk_deletes = []\<rparr>)"
  by (simp add: sync_contacts_async_def demo_empty_fetch run_sync_nothing)

theorem C1_absent_rows_deleted_witness:
  "get_all_contacts (static_remote demo_contacts) [] = Some (Inr demo_contacts, [0])
   \<and> demo_contacts \<noteq> []
   \<and> (\<exists>res db'. sync_contacts_async (static_remote demo_contacts) True demo_utcnow
                  demo_fromisoformat [] demo_contact_table = Some (Inr res, [0], db')
         \<and> bulk_deletes db' = [{4}]
         \<and> 4 \<notin> set (map odoo_id (committed db')))
   \<and> get_all_invoices (static_remote []) [] = Some (Inr [], [0])
   \<and> sync_invoices_async (static_remote []) True demo_utcnow demo_fromisoformat []
        [demo_invoice_row 8]
       = Some (Inr NoRecordsFound, [0],
           \<lparr>committed = [demo_invoice_row 8], tx = [demo_invoice_row 8], pending = [],
            ticks = 0, bulk_deletes = []\<rparr>)"
proof -
  obtain res dbc where c: "sync_contacts_async (static_remote demo_contacts) True demo_utcnow
        demo_fromisoformat [] demo_contact_table = Some (Inr res, [0], dbc)"
    using demo_run [of True, folded demo_contacts_def demo_contact_table_def] by blast
  have ne: "demo_contacts \<noteq> []" by (simp add: demo_contacts_def)
  have keys: "set (map odoo_id demo_contact_table) = {2, 3, 4}"
    by (simp add: demo_contact_table_def demo_contact_row_def)
  note inst = C1_absent_rows_deleted [where get_contacts = "static_remote demo_contacts"
      and w = "[]" and odoo_contacts = demo_contacts and ?w1.0 = "[0]" and af = True
      and utcnow = demo_utcnow and fromisoformat = demo_fromisoformat
      and contacts = demo_contact_table and res = res and w' = "[0]" and db' = dbc
      and get_invoices = "static_remote []" and invoices = "[demo_invoice_row 8]"]
  have both: "(\<forall>x \<in> set (committed dbc). \<exists>r \<in> set demo_contacts. record_id r = Inr (odoo_id x)) \<and>
      bulk_deletes dbc =
      (if set (map odoo_id demo_contact_table) \<subseteq> {i. \<exists>r \<in> set demo_contacts. record_id r = Inr i}
       then []
       else [set (map odoo_id demo_contact_table)
               - {i. \<exists>r \<in> set demo_contacts. record_id r = Inr i}])"
    by (rule inst [THEN conjunct1, THEN mp]) (simp add: demo_contacts_fetch ne c)
  then have rows: "\<forall>x \<in> set (committed dbc). \<exists>r \<in> set demo_contacts. record_id r = Inr (odoo_id x)"
    and bd: "bulk_deletes dbc =
      (if set (map odoo_id demo_contact_table) \<subseteq> {i. \<exists>r \<in> set demo_contacts. record_id r = Inr i}
       then []
       else [set (map odoo_id demo_contact_table)
               - {i. \<exists>r \<in> set demo_contacts. record_id r = Inr i}])"
    by (rule conjunct1, rule conjunct2)
  have "bulk_deletes dbc = [{4}]"
    using bd unfolding demo_contacts_ids keys by auto
  moreover have "4 \<notin> set (map odoo_id (committed dbc))"
  proof
    assume "4 \<in> set (map odoo_id (committed dbc))"
    then obtain x where "x \<in> set (committed dbc)" "odoo_id x = 4" by auto
    with rows have "4 \<in> {i. \<exists>r \<in> set demo_contacts. record_id r = Inr i}" by force
    then show False unfolding demo_contacts_ids by simp
  qed
  moreover have "sync_invoices_async (static_remote []) True demo_utcnow demo_fromisoformat []
        [demo_invoice_row 8]
       = Some (Inr NoRecordsFound, [0],
           \<lparr>committed = [demo_invoice_row 8], tx = [demo_invoice_row 8], pending = [],
            ticks = 0, bulk_deletes = []\<rparr>)"
    by (rule inst [THEN conjunct2, THEN conjunct2, THEN conjunct2, THEN mp])
       (rule demo_empty_fetch(2))
  ultimately show ?thesis using demo_contacts_fetch ne c demo_empty_fetch(2) by blast
qed

text \<open>How a run leaves the session and the table, for each way it can end.\<close>

lemma run_sync_atomic:
  assumes run: "run_sync af utcnow mapper fetched table = Some (out, w', db')"
  shows "tx db' = committed db' \<and> pending db' = [] \<and>
     (\<forall>e. out = Inl e \<longrightarrow> committed db' = table) \<and>
     (out = Inr NoRecordsFound \<longrightarrow> committed db' = table) \<and>
     (\<forall>res. out = Inr (Synced res) \<longrightarrow>
        (\<exists>rs. fetched = Some (Inr rs, w') \<and>
           set (map odoo_id (committed db')) = {i. \<exists>r \<in> set rs. record_id r = Inr i} \<and>
           (distinct (map odoo_id table) \<longrightarrow>
              distinct (map odoo_id (committed db')) \<and>
              (\<forall>x \<in> set (committed db').
                 \<exists>r. last_record rs (odoo_id x) = Some r \<and> attrs x = mapper r))))"
proof -
  have closed: "tx db' = committed db' \<and> pending db' = []"
    using run by (auto simp: run_sync_def Let_def split: option.splits sum.splits prod.splits)
  from run show ?thesis
  proof (cases rule: run_sync_cases)
    case (fetch_error e)
    then show ?thesis using closed by simp
  next
    case nothing
    then show ?thesis using closed by simp
  next
    case (error rs e)
    then show ?thesis using closed by simp
  next
    case (synced rs res dbc)
    from synced(4,2) obtain ids ni nu where ids: "map record_id rs = map Inr ids"
      and isres: "res = Synced \<lparr>inserted = ni, updated = nu,
           deleted = card (set (map odoo_id (tx (SessionLocal table))) - set ids),
           total = length rs\<rparr>"
      and keys: "set (map odoo_id (committed dbc)) = set ids"
      and dist: "distinct (map odoo_id (tx (SessionLocal table))) \<Longrightarrow>
                 distinct (map odoo_id (committed dbc))"
      and att: "distinct (map odoo_id (tx (SessionLocal table))) \<Longrightarrow>
         \<forall>x \<in> set (committed dbc). \<forall>r. last_record rs (odoo_id x) = Some r \<longrightarrow> attrs x = mapper r"
      by (rule sync_rows_Synced) auto
    note s = ids_as_set [OF ids]
    have c: "committed db' = committed dbc" using synced(5) by simp
    have k: "set (map odoo_id (committed db')) = {i. \<exists>r \<in> set rs. record_id r = Inr i}"
      using keys s c by simp
    have a: "\<forall>x \<in> set (committed db'). \<exists>r. last_record rs (odoo_id x) = Some r \<and> attrs x = mapper r"
      if d: "distinct (map odoo_id table)"
    proof
      fix x assume x: "x \<in> set (committed db')"
      then have "odoo_id x \<in> {i. \<exists>r \<in> set rs. record_id r = Inr i}" using k by auto
      then have "last_record rs (odoo_id x) \<noteq> None" by (auto simp: last_record_None)
      then obtain r where r: "last_record rs (odoo_id x) = Some r" by blast
      with att x c d have "attrs x = mapper r" by simp
      with r show "\<exists>r. last_record rs (odoo_id x) = Some r \<and> attrs x = mapper r" by blast
    qed
    have "\<exists>rs. fetched = Some (Inr rs, w') \<and>
           set (map odoo_id (committed db')) = {i. \<exists>r \<in> set rs. record_id r = Inr i} \<and>
           (distinct (map odoo_id table) \<longrightarrow>
              distinct (map odoo_id (committed db')) \<and>
              (\<forall>x \<in> set (committed db').
                 \<exists>r. last_record rs (odoo_id x) = Some r \<and> attrs x = mapper r))"
      using synced(1) k a dist c by (intro exI [of _ rs]) simp
    moreover have "out \<noteq> Inr NoRecordsFound" "\<And>e. out \<noteq> Inl e"
      using synced(3) isres by simp_all
    ultimately show ?thesis using closed by blast
  qed
qed

section \<open>Reconciliation: atomicity and field mapping\<close>

text \<open>
  C4.  However a run ends, nothing is left half applied: the session is closed with no
  pending object and its view equal to the committed table.  If the run raised (the
  exception is what the coroutine returns as \<open>Inl\<close>, that is, it reaches the caller), or
  returned "nothing found", the committed table is the table the run started from.
  If it returned the counts, the committed table holds all the writes together: its
  keys are exactly the fetched keys (every insert and every delete), and each row
  carries the columns mapped from the last fetched record with its key (every update;
  for a table with unique keys, as the unique index guarantees).  For the contacts and
  for the invoices.
\<close>

theorem C4_atomic:
  "(sync_contacts_async get_contacts af utcnow fromisoformat w contacts = Some (out, w', db') \<longrightarrow>
      tx db' = committed db' \<and> pending db' = [] \<and>
      (\<forall>e. out = Inl e \<longrightarrow> committed db' = contacts) \<and>
      (out = Inr NoRecordsFound \<longrightarrow> committed db' = contacts) \<and>
      (\<forall>res. out = Inr (Synced res) \<longrightarrow>
         (\<exists>rs. get_all_contacts get_contacts w = Some (Inr rs, w') \<and>
            set (map odoo_id (committed db')) = {i. \<exists>r \<in> set rs. record_id r = Inr i} \<and>
            (distinct (map odoo_id contacts) \<longrightarrow>
               distinct (map odoo_id (committed db')) \<and>
               (\<forall>x \<in> set (committed db').
                  \<exists>r. last_record rs (odoo_id x) = Some r \<and>
                      attrs x = contact_mapper fromisoformat r)))))
   \<and>
   (sync_invoices_async get_invoices af utcnow fromisoformat w invoices = Some (out2, w2, db2) \<longrightarrow>
      tx db2 = committed db2 \<and> pending db2 = [] \<and>
      (\<forall>e. out2 = Inl e \<longrightarrow> committed db2 = invoices) \<and>
      (out2 = Inr NoRecordsFound \<longrightarrow> committed db2 = invoices) \<and>
      (\<forall>res. out2 = Inr (Synced res) \<longrightarrow>
         (\<exists>rs. get_all_invoices get_invoices w = Some (Inr rs, w2) \<and>
            set (map odoo_id (committed db2)) = {i. \<exists>r \<in> set rs. record_id r = Inr i} \<and>
            (distinct (map odoo_id invoices) \<longrightarrow>
               distinct (map odoo_id (committed db2)) \<and>
               (\<forall>x \<in> set (committed db2).
                  \<exists>r. last_record rs (odoo_id x) = Some r \<and>
                      attrs x = invoice_mapper fromisoformat r)))))"
proof (rule conjI; rule impI)
  assume "sync_contacts_async get_contacts af utcnow fromisoformat w contacts = Some (out, w', db')"
  then have "run_sync af utcnow (contact_mapper fromisoformat) (get_all_contacts get_contacts w)
               contacts = Some (out, w', db')"
    by (simp add: sync_contacts_async_def)
  from run_sync_atomic [OF this]
  show "tx db' = committed db' \<and> pending db' = [] \<and>
      (\<forall>e. out = Inl e \<longrightarrow> committed db' = contacts) \<and>
      (out = Inr NoRecordsFound \<longrightarrow> committed db' = contacts) \<and>
      (\<forall>res. out = Inr (Synced res) \<longrightarrow>
         (\<exists>rs. get_all_contacts get_contacts w = Some (Inr rs, w') \<and>
            set (map odoo_id (committed db')) = {i. \<exists>r \<in> set rs. record_id r = Inr i} \<and>
            (distinct (map odoo_id contacts) \<longrightarrow>
               distinct (map odoo_id (committed db')) \<and>
               (\<forall>x \<in> set (committed db').
                  \<exists>r. last_record rs (odoo_id x) = Some r \<and>
                      attrs x = contact_mapper fromisoformat r))))" .
next
  assume "sync_invoices_async get_invoices af utcnow fromisoformat w invoices = Some (out2, w2, db2)"
  then have "run_sync af utcnow (invoice_mapper fromisoformat) (get_all_invoices get_invoices w)
               invoices = Some (out2, w2, db2)"
    by (simp add: sync_invoices_async_def)
  from run_sync_atomic [OF this]
  show "tx db2 = committed db2 \<and> pending db2 = [] \<and>
      (\<forall>e. out2 = Inl e \<longrightarrow> committed db2 = invoices) \<and>
      (out2 = Inr NoRecordsFound \<longrightarrow> committed db2 = invoices) \<and>
      (\<forall>res. out2 = Inr (Synced res) \<longrightarrow>
         (\<exists>rs. get_all_invoices get_invoices w = Some (Inr rs, w2) \<and>
            set (map odoo_id (committed db2)) = {i. \<exists>r \<in> set rs. record_id r = Inr i} \<and>
            (distinct (map odoo_id invoices) \<longrightarrow>
               distinct (map odoo_id (committed db2)) \<and>
               (\<forall>x \<in> set (committed db2).
                  \<exists>r. last_record rs (odoo_id x) = Some r \<and>
                      attrs x = invoice_mapper fromisoformat r))))" .
qed

text \<open>A fetch that brings the same new key twice, into a session that does not autoflush:
  both records are added, the bulk DELETE is issued, and the commit fails on the unique
  index.\<close>

lemma demo_failed_run:
  "sync_contacts_async (static_remote [demo_contact 1, demo_contact 1]) False demo_utcnow
      demo_fromisoformat [] demo_contact_table
   = Some (Inl IntegrityError, [0],
       \<lparr>committed = demo_contact_table, tx = demo_contact_table, pending = [], ticks = 0,
        bulk_deletes = [{2, 3, 4}]\<rparr>)"
proof -
  have f: "get_all_contacts (static_remote [demo_contact 1, demo_contact 1]) []
           = Some (Inr [demo_contact 1, demo_contact 1], [0])"
    by (simp add: get_all_contacts_def get_all_loop_one_page)
  have s: "{2, 3, 4} - {1, 1} = {2, 3, 4 :: int}" by auto
  show ?thesis
    unfolding sync_contacts_async_def f
    by (simp add: eval_defs demo_contact_table_def s del: set_filter)
qed

theorem C4_atomic_witness:
  "sync_contacts_async (static_remote [demo_contact 1, demo_contact 1]) False demo_utcnow
      demo_fromisoformat [] demo_contact_table
     = Some (Inl IntegrityError, [0],
         \<lparr>committed = demo_contact_table, tx = demo_contact_table, pending = [], ticks = 0,
          bulk_deletes = [{2, 3, 4}]\<rparr>)
   \<and> (\<exists>db2. sync_invoices_async (static_remote [demo_invoice 7]) False demo_utcnow
               demo_fromisoformat [] [demo_invoice_row 7, demo_invoice_row 8]
             = Some (Inr (Synced \<lparr>inserted = 0, updated = 1, deleted = 1, total = 1\<rparr>), [0], db2)
           \<and> tx db2 = committed db2 \<and> pending db2 = []
           \<and> set (map odoo_id (committed db2)) = {7}
           \<and> map attrs (committed db2) = [invoice_mapper demo_fromisoformat (demo_invoice 7)])"
proof -
  let ?dbe = "\<lparr>committed = demo_contact_table, tx = demo_contact_table, pending = [], ticks = 0,
          bulk_deletes = [{2, 3, 4}]\<rparr> :: contact_attrs session"
  obtain dbi where i: "sync_invoices_async (static_remote [demo_invoice 7]) False demo_utcnow
        demo_fromisoformat [] [demo_invoice_row 7, demo_invoice_row 8]
      = Some (Inr (Synced \<lparr>inserted = 0, updated = 1, deleted = 1, total = 1\<rparr>), [0], dbi)"
    and ai: "map attrs (committed dbi) = [invoice_mapper demo_fromisoformat (demo_invoice 7)]"
    using demo_invoice_run [of False] by force
  note inst = C4_atomic [where get_contacts = "static_remote [demo_contact 1, demo_contact 1]"
      and af = False and utcnow = demo_utcnow and fromisoformat = demo_fromisoformat
      and w = "[]" and contacts = demo_contact_table and out = "Inl IntegrityError"
      and w' = "[0]" and db' = ?dbe
      and get_invoices = "static_remote [demo_invoice 7]"
      and invoices = "[demo_invoice_row 7, demo_invoice_row 8]"
      and ?out2.0 = "Inr (Synced \<lparr>inserted = 0, updated = 1, deleted = 1, total = 1\<rparr>)"
      and ?w2.0 = "[0]" and ?db2.0 = dbi]
  have e: "committed ?dbe = demo_contact_table"
    using inst [THEN conjunct1, THEN mp, OF demo_failed_run] by blast
  have ok: "tx dbi = committed dbi \<and> pending dbi = [] \<and>
      (\<exists>rs. get_all_invoices (static_remote [demo_invoice 7]) [] = Some (Inr rs, [0]) \<and>
            set (map odoo_id (committed dbi)) = {i. \<exists>r \<in> set rs. record_id r = Inr i})"
    using inst [THEN conjunct2, THEN mp, OF i] by blast
  then have k: "set (map odoo_id (committed dbi)) = {7}"
    using demo_invoice_fetch demo_invoice_ids by auto
  have "\<exists>db2. sync_invoices_async (static_remote [demo_invoice 7]) False demo_utcnow
               demo_fromisoformat [] [demo_invoice_row 7, demo_invoice_row 8]
             = Some (Inr (Synced \<lparr>inserted = 0, updated = 1, deleted = 1, total = 1\<rparr>), [0], db2)
           \<and> tx db2 = committed db2 \<and> pending db2 = []
           \<and> set (map odoo_id (committed db2)) = {7}
           \<and> map attrs (committed db2) = [invoice_mapper demo_fromisoformat (demo_invoice 7)]"
    using ok i ai k by (intro exI [of _ dbi]) simp
  with demo_failed_run e show ?thesis by blast
qed

text \<open>The optional fields that do map a missing, null or false upstream value to null.\<close>

lemma dict_get_absent: "map_of r k = None \<Longrightarrow> dict_get r k = PNone"
  by (simp add: dict_get_def)

lemma nullish_to_null:
  assumes "v = PNone \<or> v = PBool False"
  shows "odoo_value v = PNone"
    and "parse_write_date fromisoformat v = None"
    and "parse_datetime fromisoformat v = None"
    and "extract_tuple_values v = (PNone, PNone)"
  using assms by (auto simp: odoo_value_def parse_write_date_def parse_datetime_def)

lemma contact_optional_null:
  assumes "\<And>k. k \<in> {''email'', ''phone'', ''write_date''} \<Longrightarrow>
             map_of r k = None \<or> map_of r k = Some PNone \<or> map_of r k = Some (PBool False)"
  shows "email (contact_mapper fromisoformat r) = PNone"
    and "phone (contact_mapper fromisoformat r) = PNone"
    and "write_date (contact_mapper fromisoformat r) = None"
proof -
  have n: "dict_get r k = PNone \<or> dict_get r k = PBool False"
    if "k \<in> {''email'', ''phone'', ''write_date''}" for k
    using assms [OF that] by (auto simp: dict_get_def)
  show "email (contact_mapper fromisoformat r) = PNone"
    using nullish_to_null(1) [OF n [of "''email''"]] by (simp add: contact_mapper_def)
  show "phone (contact_mapper fromisoformat r) = PNone"
    using nullish_to_null(1) [OF n [of "''phone''"]] by (simp add: contact_mapper_def)
  show "write_date (contact_mapper fromisoformat r) = None"
    using nullish_to_null(2) [OF n [of "''write_date''"]] by (simp add: contact_mapper_def)
qed

lemma invoice_optional_null:
  assumes "\<And>k. k \<in> {''invoice_date'', ''partner_id'', ''currency_id'', ''write_date'', ''create_date''}
             \<Longrightarrow> map_of r k = None \<or> map_of r k = Some PNone \<or> map_of r k = Some (PBool False)"
  shows "inv_invoice_date (invoice_mapper fromisoformat r) = None"
    and "inv_partner_id (invoice_mapper fromisoformat r) = PNone"
    and "inv_partner_name (invoice_mapper fromisoformat r) = PNone"
    and "inv_currency_id (invoice_mapper fromisoformat r) = PNone"
    and "inv_currency_name (invoice_mapper fromisoformat r) = PNone"
    and "inv_write_date (invoice_mapper fromisoformat r) = None"
    and "inv_create_date (invoice_mapper fromisoformat r) = None"
proof -
  have n: "dict_get r k = PNone \<or> dict_get r k = PBool False"
    if "k \<in> {''invoice_date'', ''partner_id'', ''currency_id'', ''write_date'', ''create_date''}"
    for k
    using assms [OF that] by (auto simp: dict_get_def)
  show "inv_invoice_date (invoice_mapper fromisoformat r) = None"
    using nullish_to_null(3) [OF n [of "''invoice_date''"]] by (simp add: invoice_mapper_def)
  show "inv_partner_id (invoice_mapper fromisoformat r) = PNone"
    using nullish_to_null(4) [OF n [of "''partner_id''"]] by (simp add: invoice_mapper_def)
  show "inv_partner_name (invoice_mapper fromisoformat r) = PNone"
    using nullish_to_null(4) [OF n [of "''partner_id''"]] by (simp add: invoice_mapper_def)
  show "inv_currency_id (invoice_mapper fromisoformat r) = PNone"
    using nullish_to_null(4) [OF n [of "''currency_id''"]] by (simp add: invoice_mapper_def)
  show "inv_currency_name (invoice_mapper fromisoformat r) = PNone"
    using nullish_to_null(4) [OF n [of "''currency_id''"]] by (simp add: invoice_mapper_def)
  show "inv_write_date (invoice_mapper fromisoformat r) = None"
    using nullish_to_null(3) [OF n [of "''write_date''"]] by (simp add: invoice_mapper_def)
  show "inv_create_date (invoice_mapper fromisoformat r) = None"
    using nullish_to_null(3) [OF n [of "''create_date''"]] by (simp add: invoice_mapper_def)
qed

text \<open>The three invoice fields that are copied as they come.\<close>

lemma invoice_copied_as_is:
  "inv_amount_total (invoice_mapper fromisoformat r) = dict_get r ''amount_total''"
  "inv_amount_residual (invoice_mapper fromisoformat r) = dict_get r ''amount_residual''"
  "inv_state (invoice_mapper fromisoformat r) = dict_get r ''state''"
  by (simp_all add: invoice_mapper_def)

text \<open>
  C2 fails on the code.  An invoice record whose \<open>state\<close> and \<open>amount_total\<close> are
  \<open>false\<close>, synced into an empty table, leaves a row whose \<open>state\<close> and \<open>amount_total\<close>
  are \<open>False\<close>, not null; the missing \<open>amount_residual\<close> and the false \<open>invoice_date\<close>
  and \<open>currency_id\<close> are null.
\<close>

theorem C2_false_state_and_amount_stored:
  "sync_invoices_async (static_remote [demo_invoice 7]) True demo_utcnow demo_fromisoformat [] []
   = Some (Inr (Synced \<lparr>inserted = 1, updated = 0, deleted = 0, total = 1\<rparr>), [0],
       \<lparr>committed =
          [\<lparr>odoo_id = 7,
            attrs = \<lparr>inv_name = PStr ''INV/7'', inv_move_type = PStr ''out_invoice'',
                     inv_invoice_date = None, inv_partner_id = PInt 7,
                     inv_partner_name = PStr ''Acme'', inv_amount_total = PBool False,
                     inv_amount_residual = PNone, inv_state = PBool False,
                     inv_currency_id = PNone, inv_currency_name = PNone,
                     inv_write_date = None, inv_create_date = None\<rparr>,
            created_at = Some 1000, updated_at = Some 1001\<rparr>],
        tx =
          [\<lparr>odoo_id = 7,
            attrs = \<lparr>inv_name = PStr ''INV/7'', inv_move_type = PStr ''out_invoice'',
                     inv_invoice_date = None, inv_partner_id = PInt 7,
                     inv_partner_name = PStr ''Acme'', inv_amount_total = PBool False,
                     inv_amount_residual = PNone, inv_state = PBool False,
                     inv_currency_id = PNone, inv_currency_name = PNone,
                     inv_write_date = None, inv_create_date = None\<rparr>,
            created_at = Some 1000, updated_at = Some 1001\<rparr>],
        pending = [], ticks = 2, bulk_deletes = []\<rparr>)"
  unfolding sync_invoices_async_def demo_invoice_fetch
  by (simp add: eval_session record_id_def demo_invoice_id demo_invoice_mapped demo_utcnow_def
        del: set_filter)

section \<open>Reconciliation: the example of the specification\<close>

subsection \<open>Runs over records with pairwise different keys\<close>

lemma autoflush_ok:
  assumes "distinct (map odoo_id (tx s @ pending s))"
  obtains s1 where "autoflush af utcnow s = Inr s1"
proof (cases af)
  case True
  have "distinct (map odoo_id (pending s))"
    and "set (map odoo_id (pending s)) \<inter> set (map odoo_id (tx s)) = {}"
    using assms by auto
  then have "flush utcnow s = Inr (s\<lparr>tx := tx s @ stamp utcnow (ticks s) (pending s), pending := [],
                   ticks := ticks s + 2 * length (pending s)\<rparr>)"
    by (simp add: flush_def)
  then show ?thesis using True that by (simp add: autoflush_def)
next
  case False
  then show ?thesis using that by (simp add: autoflush_def)
qed

lemma flush_ok:
  assumes "distinct (map odoo_id (tx s @ pending s))"
  obtains s1 where "flush utcnow s = Inr s1"
  using autoflush_ok [OF assms, of True utcnow] by (auto simp: autoflush_def)

lemma upsert_eval:
  assumes "record_id r = Inr i" and "autoflush af utcnow s = Inr s1"
  shows "upsert af utcnow mapper r (s, ni, nu) =
     (if i \<in> set (map odoo_id (tx s1))
      then Inr (s1\<lparr>tx := update_first i
                     (\<lambda>x. x\<lparr>attrs := mapper r, updated_at := Some (utcnow (ticks s1))\<rparr>) (tx s1),
                   ticks := Suc (ticks s1)\<rparr>, ni, Suc nu)
      else Inr (s1\<lparr>pending := pending s1 @
                   [\<lparr>odoo_id = i, attrs = mapper r, created_at = None, updated_at = None\<rparr>]\<rparr>,
                Suc ni, nu))"
proof (cases "find (\<lambda>x. odoo_id x = i) (tx s1)")
  case None
  then have "i \<notin> set (map odoo_id (tx s1))" by (simp add: find_None_keys)
  then show ?thesis using assms None by (simp add: upsert_def)
next
  case (Some x)
  then have "i \<in> set (map odoo_id (tx s1))" by (rule find_Some_keys)
  then show ?thesis using assms Some by (simp add: upsert_def)
qed

lemma autoflush_tx_keys:
  assumes "autoflush af utcnow s = Inr s1"
    and "i \<notin> set (map odoo_id (pending s))"
  shows "i \<in> set (map odoo_id (tx s1)) \<longleftrightarrow> i \<in> set (map odoo_id (tx s))"
proof (cases af)
  case True
  have "set (map odoo_id (tx s1 @ pending s1)) = set (map odoo_id (tx s @ pending s))"
    using autoflush_Inr(3) [OF assms(1)] by simp
  then show ?thesis using autoflush_Inr(6) [OF assms(1) True] assms(2) by auto
next
  case False
  then show ?thesis using autoflush_Inr(5) [OF assms(1)] by simp
qed

lemma autoflush_pending_keys:
  assumes "autoflush af utcnow s = Inr s1"
  shows "set (map odoo_id (pending s1)) \<subseteq> set (map odoo_id (pending s))"
  using autoflush_Inr(5,6) [OF assms] by (cases af) auto

lemma upsert_loop_distinct_ids:
  assumes "map record_id rs = map Inr ids" and "distinct ids"
    and "set ids \<inter> set (map odoo_id (pending s)) = {}"
    and "distinct (map odoo_id (tx s @ pending s))"
  shows "\<exists>s'. upsert_loop af utcnow mapper rs (s, ni, nu)
           = Inr (s', ni + length (filter (\<lambda>i. i \<notin> set (map odoo_id (tx s))) ids),
                      nu + length (filter (\<lambda>i. i \<in> set (map odoo_id (tx s))) ids))
         \<and> distinct (map odoo_id (tx s' @ pending s'))"
  using assms
proof (induction rs arbitrary: s ids ni nu)
  case Nil
  then show ?case by simp
next
  case (Cons r rs)
  from Cons.prems(1) obtain i ids' where ids: "ids = i # ids'" and ri: "record_id r = Inr i"
    and rest: "map record_id rs = map Inr ids'"
    by (cases ids) auto
  have di: "distinct ids'" and ini: "i \<notin> set ids'" using Cons.prems(2) ids by simp_all
  have ip: "i \<notin> set (map odoo_id (pending s))" using Cons.prems(3) ids by auto
  obtain s1 where s1: "autoflush af utcnow s = Inr s1"
    using autoflush_ok [OF Cons.prems(4)] by blast
  have k1: "map odoo_id (tx s1 @ pending s1) = map odoo_id (tx s @ pending s)"
    by (rule autoflush_Inr(3) [OF s1])
  have p1: "set (map odoo_id (pending s1)) \<subseteq> set (map odoo_id (pending s))"
    by (rule autoflush_pending_keys [OF s1])
  have found_iff: "j \<in> set (map odoo_id (tx s1)) \<longleftrightarrow> j \<in> set (map odoo_id (tx s))"
    if "j \<notin> set (map odoo_id (pending s))" for j
    by (rule autoflush_tx_keys [OF s1 that])
  have fi: "(j \<in> set (map odoo_id (tx s1))) = (j \<in> set (map odoo_id (tx s)))"
    if "j \<in> set ids'" for j
  proof -
    have "j \<notin> set (map odoo_id (pending s))" using Cons.prems(3) ids that by auto
    then show ?thesis by (rule found_iff)
  qed
  have same1: "filter (\<lambda>j. j \<in> set (map odoo_id (tx s1))) ids'
             = filter (\<lambda>j. j \<in> set (map odoo_id (tx s))) ids'"
    by (rule filter_cong [OF refl]) (rule fi)
  have same2: "filter (\<lambda>j. j \<notin> set (map odoo_id (tx s1))) ids'
             = filter (\<lambda>j. j \<notin> set (map odoo_id (tx s))) ids'"
    by (rule filter_cong [OF refl]) (simp only: fi)
  show ?case
  proof (cases "i \<in> set (map odoo_id (tx s1))")
    case True
    let ?s' = "s1\<lparr>tx := update_first i
                 (\<lambda>x. x\<lparr>attrs := mapper r, updated_at := Some (utcnow (ticks s1))\<rparr>) (tx s1),
               ticks := Suc (ticks s1)\<rparr>"
    have step: "upsert af utcnow mapper r (s, ni, nu) = Inr (?s', ni, Suc nu)"
      using upsert_eval [OF ri s1] True by simp
    have a3: "set ids' \<inter> set (map odoo_id (pending ?s')) = {}"
      using Cons.prems(3) ids p1 by auto
    have d1: "distinct (map odoo_id (tx s1 @ pending s1))" using Cons.prems(4) unfolding k1 .
    have a4: "distinct (map odoo_id (tx ?s' @ pending ?s'))"
      using d1 by simp
    have ktx: "map odoo_id (tx ?s') = map odoo_id (tx s1)" by simp
    from Cons.IH [OF rest di a3 a4, of ni "Suc nu"] obtain s' where
      run: "upsert_loop af utcnow mapper rs (?s', ni, Suc nu)
           = Inr (s', ni + length (filter (\<lambda>i. i \<notin> set (map odoo_id (tx s1))) ids'),
                      Suc nu + length (filter (\<lambda>i. i \<in> set (map odoo_id (tx s1))) ids'))"
      and d': "distinct (map odoo_id (tx s' @ pending s'))"
      unfolding ktx by blast
    have ik: "i \<in> set (map odoo_id (tx s))" using True found_iff [OF ip] by simp
    have "upsert_loop af utcnow mapper (r # rs) (s, ni, nu)
           = Inr (s', ni + length (filter (\<lambda>i. i \<notin> set (map odoo_id (tx s))) ids),
                      nu + length (filter (\<lambda>i. i \<in> set (map odoo_id (tx s))) ids))"
      unfolding upsert_loop.simps step sum.case run same1 same2 ids using ik by simp
    with d' show ?thesis by blast
  next
    case False
    let ?s' = "s1\<lparr>pending := pending s1 @
               [\<lparr>odoo_id = i, attrs = mapper r, created_at = None, updated_at = None\<rparr>]\<rparr>"
    have step: "upsert af utcnow mapper r (s, ni, nu) = Inr (?s', Suc ni, nu)"
      using upsert_eval [OF ri s1] False by simp
    have a3: "set ids' \<inter> set (map odoo_id (pending ?s')) = {}"
      using Cons.prems(3) ids p1 ini by auto
    have ip1: "i \<notin> set (map odoo_id (pending s1))" using p1 ip by auto
    have d1: "distinct (map odoo_id (tx s1 @ pending s1))" using Cons.prems(4) unfolding k1 .
    have a4: "distinct (map odoo_id (tx ?s' @ pending ?s'))"
      using d1 ip1 False by auto
    have ktx: "map odoo_id (tx ?s') = map odoo_id (tx s1)" by simp
    from Cons.IH [OF rest di a3 a4, of "Suc ni" nu] obtain s' where
      run: "upsert_loop af utcnow mapper rs (?s', Suc ni, nu)
           = Inr (s', Suc ni + length (filter (\<lambda>i. i \<notin> set (map odoo_id (tx s1))) ids'),
                      nu + length (filter (\<lambda>i. i \<in> set (map odoo_id (tx s1))) ids'))"
      and d': "distinct (map odoo_id (tx s' @ pending s'))"
      unfolding ktx by blast
    have ik: "i \<notin> set (map odoo_id (tx s))" using False found_iff [OF ip] by simp
    have "upsert_loop af utcnow mapper (r # rs) (s, ni, nu)
           = Inr (s', ni + length (filter (\<lambda>i. i \<notin> set (map odoo_id (tx s))) ids),
                      nu + length (filter (\<lambda>i. i \<in> set (map odoo_id (tx s))) ids))"
      unfolding upsert_loop.simps step sum.case run same1 same2 ids using ik by simp
    with d' show ?thesis by blast
  qed
qed

lemma commit_ok:
  assumes "distinct (map odoo_id (tx s @ pending s))"
  shows "\<exists>s3. commit utcnow s = Inr s3"
proof -
  obtain s1 where "flush utcnow s = Inr s1" by (rule flush_ok [OF assms])
  then have "commit utcnow s = Inr (s1\<lparr>committed := tx s1\<rparr>)" by (simp add: commit_def)
  then show ?thesis by blast
qed

lemma delete_and_commit_ok:
  assumes "distinct (map odoo_id (tx s @ pending s))"
  shows "\<exists>s2 s3. (if D \<noteq> {} then bulk_delete af utcnow D s else Inr s) = Inr s2
            \<and> commit utcnow s2 = Inr s3"
proof (cases "D = {}")
  case True
  then show ?thesis using commit_ok [OF assms, of utcnow] by simp
next
  case False
  obtain sf where sf: "autoflush af utcnow s = Inr sf"
    using autoflush_ok [OF assms] by blast
  let ?s2 = "sf\<lparr>tx := filter (\<lambda>x. odoo_id x \<notin> D) (tx sf), bulk_deletes := bulk_deletes sf @ [D]\<rparr>"
  have d: "distinct (map odoo_id (tx sf @ pending sf))"
    using assms unfolding autoflush_Inr(3) [OF sf] .
  then have 1: "distinct (map odoo_id (tx sf))" and 2: "distinct (map odoo_id (pending sf))"
    and 3: "set (map odoo_id (tx sf)) \<inter> set (map odoo_id (pending sf)) = {}"
    by simp_all
  have 4: "distinct (map odoo_id (filter (\<lambda>x. odoo_id x \<notin> D) (tx sf)))"
    by (rule distinct_map_filter [OF 1])
  have 5: "set (map odoo_id (filter (\<lambda>x. odoo_id x \<notin> D) (tx sf))) \<subseteq> set (map odoo_id (tx sf))"
    by auto
  have "distinct (map odoo_id (filter (\<lambda>x. odoo_id x \<notin> D) (tx sf)) @ map odoo_id (pending sf))"
    unfolding distinct_append using 2 3 4 5 by blast
  then have "distinct (map odoo_id (tx ?s2 @ pending ?s2))" by simp
  from commit_ok [OF this, of utcnow] obtain s3 where "commit utcnow ?s2 = Inr s3" by blast
  moreover have "bulk_delete af utcnow D s = Inr ?s2" using sf by (simp add: bulk_delete_def)
  ultimately show ?thesis using False by auto
qed

lemma sync_rows_distinct_ids:
  assumes ids: "map record_id rs = map Inr ids" and di: "distinct ids" and ne: "rs \<noteq> []"
    and fresh: "pending db = []" and dt: "distinct (map odoo_id (tx db))"
  shows "\<exists>db'. sync_rows af utcnow mapper rs db =
     Inr (Synced \<lparr>inserted = card (set ids - set (map odoo_id (tx db))),
                  updated = card (set ids \<inter> set (map odoo_id (tx db))),
                  deleted = card (set (map odoo_id (tx db)) - set ids),
                  total = length rs\<rparr>, db')"
proof -
  let ?K = "set (map odoo_id (tx db))"
  have f: "fetched_odoo_ids rs = Inr (map PInt ids)" by (rule fetched_of_ids [OF ids])
  from upsert_loop_distinct_ids [OF ids di, of db af utcnow mapper 0 0] fresh dt
  obtain db1 where l: "upsert_loop af utcnow mapper rs (db, 0, 0)
        = Inr (db1, length (filter (\<lambda>i. i \<notin> ?K) ids), length (filter (\<lambda>i. i \<in> ?K) ids))"
    and d1: "distinct (map odoo_id (tx db1 @ pending db1))"
    by auto
  from delete_and_commit_ok [OF d1, of "?K - set ids" af utcnow]
  obtain db2 db3 where
    d: "(if ?K - set ids \<noteq> {} then bulk_delete af utcnow (?K - set ids) db1 else Inr db1) = Inr db2"
    and c: "commit utcnow db2 = Inr db3"
    by blast
  have "{x. x \<notin> ?K} \<inter> set ids = set ids - ?K" by blast
  then have n1: "length (filter (\<lambda>i. i \<notin> ?K) ids) = card (set ids - ?K)"
    using distinct_length_filter [OF di, of "\<lambda>i. i \<notin> ?K"] by simp
  have "{x. x \<in> ?K} \<inter> set ids = set ids \<inter> ?K" by blast
  then have n2: "length (filter (\<lambda>i. i \<in> ?K) ids) = card (set ids \<inter> ?K)"
    using distinct_length_filter [OF di, of "\<lambda>i. i \<in> ?K"] by simp
  have "sync_rows af utcnow mapper rs db =
     Inr (Synced \<lparr>inserted = length (filter (\<lambda>i. i \<notin> ?K) ids),
                  updated = length (filter (\<lambda>i. i \<in> ?K) ids),
                  deleted = card (?K - set ids), total = length rs\<rparr>, db3)"
    unfolding sync_rows_def Let_def f int_ids_PInt sum.case l prod.case d c using ne by simp
  then show ?thesis unfolding n1 n2 by blast
qed

subsection \<open>Rows that stay keep their creation stamp\<close>

lemma update_first_keeps:
  "x \<in> set xs \<Longrightarrow>
   \<exists>x' \<in> set (update_first i (\<lambda>y. y\<lparr>attrs := a, updated_at := u\<rparr>) xs).
      odoo_id x' = odoo_id x \<and> created_at x' = created_at x"
proof (induction xs)
  case Nil
  then show ?case by simp
next
  case (Cons y ys)
  show ?case
  proof (cases "odoo_id y = i")
    case True
    then show ?thesis using Cons.prems by (cases "x = y") auto
  next
    case False
    then show ?thesis using Cons by (cases "x = y") auto
  qed
qed

lemma autoflush_tx_grows:
  assumes "autoflush af utcnow s = Inr s1"
  shows "set (tx s) \<subseteq> set (tx s1)"
proof (cases af)
  case True
  then have "flush utcnow s = Inr s1" using assms by (simp add: autoflush_def)
  from flush_Inr(3) [OF this] show ?thesis by simp
next
  case False
  then show ?thesis using autoflush_Inr(5) [OF assms] by simp
qed

lemma upsert_keeps_rows:
  assumes "upsert af utcnow mapper r (s, ni, nu) = Inr (s', ni', nu')" and "x \<in> set (tx s)"
  shows "\<exists>x' \<in> set (tx s'). odoo_id x' = odoo_id x \<and> created_at x' = created_at x"
  using assms(1)
proof (cases rule: upsert_Inr)
  case (found i s1)
  have "x \<in> set (tx s1)" using autoflush_tx_grows [OF found(2)] assms(2) by auto
  from update_first_keeps [OF this] show ?thesis using found(4) by simp
next
  case (new i s1)
  have "x \<in> set (tx s1)" using autoflush_tx_grows [OF new(2)] assms(2) by auto
  then show ?thesis using new(4) by auto
qed

lemma upsert_loop_keeps_rows:
  assumes "upsert_loop af utcnow mapper rs (s, ni, nu) = Inr (s', ni', nu')" and "x \<in> set (tx s)"
  shows "\<exists>x' \<in> set (tx s'). odoo_id x' = odoo_id x \<and> created_at x' = created_at x"
  using assms
proof (induction rs arbitrary: s ni nu x)
  case Nil
  then show ?case by auto
next
  case (Cons r rs)
  from Cons.prems(1)
  obtain s1 ni1 nu1 where 1: "upsert af utcnow mapper r (s, ni, nu) = Inr (s1, ni1, nu1)"
    and 2: "upsert_loop af utcnow mapper rs (s1, ni1, nu1) = Inr (s', ni', nu')"
    by (rule upsert_loop_Cons_Inr)
  from upsert_keeps_rows [OF 1 Cons.prems(2)] obtain x1 where
    x1: "x1 \<in> set (tx s1)" "odoo_id x1 = odoo_id x" "created_at x1 = created_at x"
    by blast
  from Cons.IH [OF 2 x1(1)] x1(2,3) show ?case by auto
qed

lemma sync_rows_keeps_rows:
  assumes run: "sync_rows af utcnow mapper rs db = Inr (res, db')" and ne: "rs \<noteq> []"
    and x: "x \<in> set (tx db)" and fetched: "\<exists>r \<in> set rs. record_id r = Inr (odoo_id x)"
  shows "\<exists>x' \<in> set (committed db'). odoo_id x' = odoo_id x \<and> created_at x' = created_at x"
proof -
  from run ne obtain fetched db1 ni nu db2 where
    f: "fetched_odoo_ids rs = Inr fetched"
    and l: "upsert_loop af utcnow mapper rs (db, 0, 0) = Inr (db1, ni, nu)"
    and d: "(if set (map odoo_id (tx db)) - set (int_ids fetched) \<noteq> {}
      then bulk_delete af utcnow (set (map odoo_id (tx db)) - set (int_ids fetched)) db1
      else Inr db1) = Inr db2"
    and c: "commit utcnow db2 = Inr db'"
    by (rule sync_rows_Inr)
  from upsert_loop_keys [OF l] obtain ids where ids: "map record_id rs = map Inr ids" by blast
  have fi: "int_ids fetched = ids" using fetched_of_ids [OF ids] f by auto
  have xin: "odoo_id x \<in> set ids" using fetched ids_as_set [OF ids] by auto
  from upsert_loop_keeps_rows [OF l x] obtain x1 where
    x1: "x1 \<in> set (tx db1)" "odoo_id x1 = odoo_id x" "created_at x1 = created_at x"
    by blast
  have x2: "x1 \<in> set (tx db2)"
  proof (cases "set (map odoo_id (tx db)) - set (int_ids fetched) = {}")
    case True
    then show ?thesis using d x1(1) by simp
  next
    case False
    then have "bulk_delete af utcnow (set (map odoo_id (tx db)) - set (int_ids fetched)) db1 = Inr db2"
      using d by simp
    then obtain sf where sf: "autoflush af utcnow db1 = Inr sf"
      and db2: "db2 = sf\<lparr>tx := filter (\<lambda>x. odoo_id x \<notin> set (map odoo_id (tx db)) - set (int_ids fetched)) (tx sf),
                        bulk_deletes := bulk_deletes sf @ [set (map odoo_id (tx db)) - set (int_ids fetched)]\<rparr>"
      by (rule bulk_delete_Inr)
    have "x1 \<in> set (tx sf)" using autoflush_tx_grows [OF sf] x1(1) by auto
    then show ?thesis using db2 x1(2) xin fi by simp
  qed
  from c obtain s1 where fl: "flush utcnow db2 = Inr s1" and db': "db' = s1\<lparr>committed := tx s1\<rparr>"
    by (rule commit_Inr)
  have "x1 \<in> set (committed db')" using flush_Inr(3) [OF fl] db' x2 by simp
  with x1(2,3) show ?thesis by blast
qed

lemma last_record_unique:
  assumes ids: "map record_id rs = map Inr ids" and di: "distinct ids"
    and r: "r \<in> set rs" "record_id r = Inr i"
  shows "last_record rs i = Some r"
proof -
  have "last_record rs i \<noteq> None" using r by (auto simp: last_record_None)
  then obtain r' where r': "last_record rs i = Some r'" by blast
  from last_record_Some [OF this] have m: "r' \<in> set rs" "record_id r' = Inr i" by simp_all
  have "distinct (map record_id rs)" unfolding ids using di by (simp add: distinct_map)
  then have "inj_on record_id (set rs)" by (simp add: distinct_map)
  then have "r' = r" using m r by (simp add: inj_on_def)
  with r' show ?thesis by simp
qed

lemma run_sync_example:
  assumes ids: "map record_id rs = map Inr ids" and di: "distinct ids"
    and sids: "set ids = {1, 2, 3}"
    and dt: "distinct (map odoo_id table)" and st: "set (map odoo_id table) = {2, 3, 4}"
  shows "\<exists>db'. run_sync af utcnow mapper (Some (Inr rs, w1)) table
            = Some (Inr (Synced \<lparr>inserted = 1, updated = 2, deleted = 1, total = 3\<rparr>), w1, db')
       \<and> set (map odoo_id (committed db')) = {1, 2, 3}
       \<and> distinct (map odoo_id (committed db'))
       \<and> bulk_deletes db' = [{4}]
       \<and> (\<forall>x \<in> set (committed db'). \<forall>r \<in> set rs.
             record_id r = Inr (odoo_id x) \<longrightarrow> attrs x = mapper r)
       \<and> (\<forall>x \<in> set table. odoo_id x \<noteq> 4 \<longrightarrow>
             (\<exists>x' \<in> set (committed db'). odoo_id x' = odoo_id x \<and> created_at x' = created_at x))"
proof -
  let ?db = "SessionLocal table :: 'a session"
  have len: "length rs = 3"
  proof -
    have "length rs = length ids" using arg_cong [OF ids, of length] by simp
    also have "\<dots> = card (set ids)" using distinct_card [OF di] by simp
    also have "\<dots> = 3" unfolding sids by simp
    finally show ?thesis .
  qed
  then have ne: "rs \<noteq> []" by auto
  have s1: "set ids - set (map odoo_id (tx ?db)) = {1}"
    and s2: "set ids \<inter> set (map odoo_id (tx ?db)) = {2, 3}"
    and s3: "set (map odoo_id (tx ?db)) - set ids = {4}"
    unfolding sids SessionLocal_simps st by auto
  from sync_rows_distinct_ids [OF ids di ne, of ?db af utcnow mapper] dt
  obtain dbc where run: "sync_rows af utcnow mapper rs ?db
      = Inr (Synced \<lparr>inserted = 1, updated = 2, deleted = 1, total = 3\<rparr>, dbc)"
    unfolding s1 s2 s3 len by auto
  have top: "run_sync af utcnow mapper (Some (Inr rs, w1)) table
            = Some (Inr (Synced \<lparr>inserted = 1, updated = 2, deleted = 1, total = 3\<rparr>), w1, close dbc)"
    using run by (simp add: run_sync_def)
  from run ne obtain ids' where ids': "map record_id rs = map Inr ids'"
    and keys: "set (map odoo_id (committed dbc)) = set ids'"
    and bd: "bulk_deletes dbc = bulk_deletes ?db @
       (if set (map odoo_id (tx ?db)) - set ids' = {} then [] else [set (map odoo_id (tx ?db)) - set ids'])"
    and dist: "distinct (map odoo_id (tx ?db)) \<Longrightarrow> distinct (map odoo_id (committed dbc))"
    and att: "distinct (map odoo_id (tx ?db)) \<Longrightarrow>
       \<forall>x \<in> set (committed dbc). \<forall>r. last_record rs (odoo_id x) = Some r \<longrightarrow> attrs x = mapper r"
    by (rule sync_rows_Synced) simp_all
  have same: "ids' = ids" using ids ids' by (simp add: inj_map_eq_map)
  have k: "set (map odoo_id (committed (close dbc))) = {1, 2, 3}"
    using keys same sids by simp
  have d: "distinct (map odoo_id (committed (close dbc)))" using dist dt by simp
  have b: "bulk_deletes (close dbc) = [{4}]"
    using bd unfolding same s3 by simp
  have a: "\<forall>x \<in> set (committed (close dbc)). \<forall>r \<in> set rs.
             record_id r = Inr (odoo_id x) \<longrightarrow> attrs x = mapper r"
  proof (intro ballI impI)
    fix x r
    assume x: "x \<in> set (committed (close dbc))" and r: "r \<in> set rs" "record_id r = Inr (odoo_id x)"
    from last_record_unique [OF ids di r] att dt x show "attrs x = mapper r" by simp
  qed
  have c: "\<forall>x \<in> set table. odoo_id x \<noteq> 4 \<longrightarrow>
             (\<exists>x' \<in> set (committed (close dbc)). odoo_id x' = odoo_id x \<and> created_at x' = created_at x)"
  proof (intro ballI impI)
    fix x assume x: "x \<in> set table" and n4: "odoo_id x \<noteq> 4"
    then have "odoo_id x \<in> {2, 3, 4}" using st by auto
    then have "odoo_id x \<in> set ids" using n4 sids by auto
    then have "\<exists>r \<in> set rs. record_id r = Inr (odoo_id x)" using ids_as_set [OF ids] by auto
    from sync_rows_keeps_rows [OF run ne _ this] x
    show "\<exists>x' \<in> set (committed (close dbc)). odoo_id x' = odoo_id x \<and> created_at x' = created_at x"
      by simp
  qed
  from top k d b a c show ?thesis by blast
qed

text \<open>
  C8.  Remote records whose keys are 1, 2 and 3 (each once), against a table whose
  keys are 2, 3 and 4: the run returns \<open>inserted = 1\<close>, \<open>updated = 2\<close>, \<open>deleted = 1\<close>
  (\<open>total = 3\<close>); the table then holds exactly the keys 1, 2 and 3, each row with the
  columns mapped from its record; the rows 2 and 3 are the old rows updated (they keep
  their \<open>created_at\<close>), and the one bulk DELETE issued was on the key 4.  In whatever
  order the records and the rows come, for both session configurations, for the
  contacts and for the invoices.
\<close>

theorem C8_example_1_2_3_against_2_3_4:
  "(map record_id odoo_contacts = map Inr ids \<and> distinct ids \<and> set ids = {1, 2, 3} \<and>
    distinct (map odoo_id contacts) \<and> set (map odoo_id contacts) = {2, 3, 4} \<and>
    get_all_contacts get_contacts w = Some (Inr odoo_contacts, w1)
    \<longrightarrow> (\<exists>db'. sync_contacts_async get_contacts af utcnow fromisoformat w contacts
               = Some (Inr (Synced \<lparr>inserted = 1, updated = 2, deleted = 1, total = 3\<rparr>), w1, db')
          \<and> set (map odoo_id (committed db')) = {1, 2, 3}
          \<and> distinct (map odoo_id (committed db'))
          \<and> bulk_deletes db' = [{4}]
          \<and> (\<forall>x \<in> set (committed db'). \<forall>r \<in> set odoo_contacts.
                record_id r = Inr (odoo_id x) \<longrightarrow> attrs x = contact_mapper fromisoformat r)
          \<and> (\<forall>x \<in> set contacts. odoo_id x \<noteq> 4 \<longrightarrow>
                (\<exists>x' \<in> set (committed db').
                   odoo_id x' = odoo_id x \<and> created_at x' = created_at x))))
   \<and>
   (map record_id odoo_invoices = map Inr ids \<and> distinct ids \<and> set ids = {1, 2, 3} \<and>
    distinct (map odoo_id invoices) \<and> set (map odoo_id invoices) = {2, 3, 4} \<and>
    get_all_invoices get_invoices w = Some (Inr odoo_invoices, w1)
    \<longrightarrow> (\<exists>db'. sync_invoices_async get_invoices af utcnow fromisoformat w invoices
               = Some (Inr (Synced \<lparr>inserted = 1, updated = 2, deleted = 1, total = 3\<rparr>), w1, db')
          \<and> set (map odoo_id (committed db')) = {1, 2, 3}
          \<and> distinct (map odoo_id (committed db'))
          \<and> bulk_deletes db' = [{4}]
          \<and> (\<forall>x \<in> set (committed db'). \<forall>r \<in> set odoo_invoices.
                record_id r = Inr (odoo_id x) \<longrightarrow> attrs x = invoice_mapper fromisoformat r)
          \<and> (\<forall>x \<in> set invoices. odoo_id x \<noteq> 4 \<longrightarrow>
                (\<exists>x' \<in> set (committed db').
                   odoo_id x' = odoo_id x \<and> created_at x' = created_at x))))"
proof (rule conjI; rule impI; elim conjE)
  assume h: "map record_id odoo_contacts = map Inr ids" "distinct ids" "set ids = {1, 2, 3}"
    "distinct (map odoo_id contacts)" "set (map odoo_id contacts) = {2, 3, 4}"
    and f: "get_all_contacts get_contacts w = Some (Inr odoo_contacts, w1)"
  show "\<exists>db'. sync_contacts_async get_contacts af utcnow fromisoformat w contacts
               = Some (Inr (Synced \<lparr>inserted = 1, updated = 2, deleted = 1, total = 3\<rparr>), w1, db')
          \<and> set (map odoo_id (committed db')) = {1, 2, 3}
          \<and> distinct (map odoo_id (committed db'))
          \<and> bulk_deletes db' = [{4}]
          \<and> (\<forall>x \<in> set (committed db'). \<forall>r \<in> set odoo_contacts.
                record_id r = Inr (odoo_id x) \<longrightarrow> attrs x = contact_mapper fromisoformat r)
          \<and> (\<forall>x \<in> set contacts. odoo_id x \<noteq> 4 \<longrightarrow>
                (\<exists>x' \<in> set (committed db').
                   odoo_id x' = odoo_id x \<and> created_at x' = created_at x))"
    unfolding sync_contacts_async_def f by (rule run_sync_example [OF h])
next
  assume h: "map record_id odoo_invoices = map Inr ids" "distinct ids" "set ids = {1, 2, 3}"
    "distinct (map odoo_id invoices)" "set (map odoo_id invoices) = {2, 3, 4}"
    and f: "get_all_invoices get_invoices w = Some (Inr odoo_invoices, w1)"
  show "\<exists>db'. sync_invoices_async get_invoices af utcnow fromisoformat w invoices
               = Some (Inr (Synced \<lparr>inserted = 1, updated = 2, deleted = 1, total = 3\<rparr>), w1, db')
          \<and> set (map odoo_id (committed db')) = {1, 2, 3}
          \<and> distinct (map odoo_id (committed db'))
          \<and> bulk_deletes db' = [{4}]
          \<and> (\<forall>x \<in> set (committed db'). \<forall>r \<in> set odoo_invoices.
                record_id r = Inr (odoo_id x) \<longrightarrow> attrs x = invoice_mapper fromisoformat r)
          \<and> (\<forall>x \<in> set invoices. odoo_id x \<noteq> 4 \<longrightarrow>
                (\<exists>x' \<in> set (committed db').
                   odoo_id x' = odoo_id x \<and> created_at x' = created_at x))"
    unfolding sync_invoices_async_def f by (rule run_sync_example [OF h])
qed

lemma demo_invoices_fetch:
  "get_all_invoices (static_remote demo_invoices) [] = Some (Inr demo_invoices, [0])"
  by (simp add: get_all_invoices_def get_all_loop_one_page demo_invoices_def)

lemma demo_record_ids:
  "map record_id demo_contacts = map Inr [1, 2, 3]"
  "map record_id demo_invoices = map Inr [1, 2, 3]"
  by (simp_all add: demo_contacts_def demo_invoices_def record_id_def demo_contact_def
        demo_invoice_id)

lemma demo_table_keys:
  "map odoo_id demo_contact_table = [2, 3, 4]"
  "map odoo_id demo_invoice_table = [2, 3, 4]"
  by (simp_all add: demo_contact_table_def demo_invoice_table_def demo_contact_row_def
        demo_invoice_row_def)

theorem C8_example_1_2_3_against_2_3_4_witness:
  "map record_id demo_contacts = map Inr [1, 2, 3] \<and> distinct [1, 2, 3 :: int]
   \<and> set [1, 2, 3 :: int] = {1, 2, 3}
   \<and> distinct (map odoo_id demo_contact_table) \<and> set (map odoo_id demo_contact_table) = {2, 3, 4}
   \<and> get_all_contacts (static_remote demo_contacts) [] = Some (Inr demo_contacts, [0])
   \<and> (\<exists>db'. sync_contacts_async (static_remote demo_contacts) True demo_utcnow demo_fromisoformat
               [] demo_contact_table
             = Some (Inr (Synced \<lparr>inserted = 1, updated = 2, deleted = 1, total = 3\<rparr>), [0], db')
           \<and> set (map odoo_id (committed db')) = {1, 2, 3} \<and> bulk_deletes db' = [{4}])
   \<and> map record_id demo_invoices = map Inr [1, 2, 3]
   \<and> distinct (map odoo_id demo_invoice_table) \<and> set (map odoo_id demo_invoice_table) = {2, 3, 4}
   \<and> get_all_invoices (static_remote demo_invoices) [] = Some (Inr demo_invoices, [0])
   \<and> (\<exists>db'. sync_invoices_async (static_remote demo_invoices) True demo_utcnow demo_fromisoformat
               [] demo_invoice_table
             = Some (Inr (Synced \<lparr>inserted = 1, updated = 2, deleted = 1, total = 3\<rparr>), [0], db')
           \<and> set (map odoo_id (committed db')) = {1, 2, 3} \<and> bulk_deletes db' = [{4}])"
proof -
  have d: "distinct [1, 2, 3 :: int]" and s: "set [1, 2, 3 :: int] = {1, 2, 3}" by auto
  have tc: "distinct (map odoo_id demo_contact_table)" "set (map odoo_id demo_contact_table) = {2, 3, 4}"
    and ti: "distinct (map odoo_id demo_invoice_table)" "set (map odoo_id demo_invoice_table) = {2, 3, 4}"
    unfolding demo_table_keys by auto
  note inst = C8_example_1_2_3_against_2_3_4 [where ids = "[1, 2, 3]" and w = "[]" and ?w1.0 = "[0]"
      and odoo_contacts = demo_contacts and contacts = demo_contact_table
      and get_contacts = "static_remote demo_contacts"
      and odoo_invoices = demo_invoices and invoices = demo_invoice_table
      and get_invoices = "static_remote demo_invoices"
      and af = True and utcnow = demo_utcnow and fromisoformat = demo_fromisoformat]
  have c: "\<exists>db'. sync_contacts_async (static_remote demo_contacts) True demo_utcnow demo_fromisoformat
               [] demo_contact_table
             = Some (Inr (Synced \<lparr>inserted = 1, updated = 2, deleted = 1, total = 3\<rparr>), [0], db')
           \<and> set (map odoo_id (committed db')) = {1, 2, 3} \<and> bulk_deletes db' = [{4}]"
    using inst [THEN conjunct1, THEN mp] demo_record_ids(1) d s tc demo_contacts_fetch by blast
  have i: "\<exists>db'. sync_invoices_async (static_remote demo_invoices) True demo_utcnow demo_fromisoformat
               [] demo_invoice_table
             = Some (Inr (Synced \<lparr>inserted = 1, updated = 2, deleted = 1, total = 3\<rparr>), [0], db')
           \<and> set (map odoo_id (committed db')) = {1, 2, 3} \<and> bulk_deletes db' = [{4}]"
    using inst [THEN conjunct2, THEN mp] demo_record_ids(2) d s ti demo_invoices_fetch by blast
  from c i demo_record_ids d s tc ti demo_contacts_fetch demo_invoices_fetch
  show ?thesis by (intro conjI)
qed

section \<open>Reconciliation: two runs in a row\<close>

subsection \<open>A run over records whose keys are all in the table\<close>

lemma find_app:
  "find P (xs @ ys) = (case find P xs of Some x \<Rightarrow> Some x | None \<Rightarrow> find P ys)"
  by (induction xs) simp_all

lemma last_record_Cons:
  "last_record (r # rs) i =
     (case last_record rs i of
        Some r' \<Rightarrow> Some r'
      | None \<Rightarrow> if record_id r = Inr i then Some r else None)"
  by (simp add: last_record_def find_app split: option.splits)

lemma clear_updated_simps [simp]:
  "odoo_id (clear_updated x) = odoo_id x" "attrs (clear_updated x) = attrs x"
  "created_at (clear_updated x) = created_at x"
  "clear_updated (x\<lparr>attrs := a, updated_at := u\<rparr>) = clear_updated (x\<lparr>attrs := a\<rparr>)"
  "clear_updated (x\<lparr>attrs := a\<rparr>\<lparr>attrs := b\<rparr>) = clear_updated (x\<lparr>attrs := b\<rparr>)"
  by (simp_all add: clear_updated_def)

lemma refreshed_step:
  assumes "record_id r = Inr i"
  shows "refreshed mapper rs (if odoo_id x = i then x\<lparr>attrs := mapper r, updated_at := u\<rparr> else x)
         = refreshed mapper (r # rs) x"
  using assms by (auto simp: refreshed_def last_record_Cons clear_updated_def split: option.splits)

lemma upsert_loop_all_present:
  assumes "map record_id rs = map Inr ids" and "set ids \<subseteq> set (map odoo_id (tx s))"
    and "pending s = []" and "distinct (map odoo_id (tx s))"
  shows "\<exists>s'. upsert_loop af utcnow mapper rs (s, ni, nu) = Inr (s', ni, nu + length rs)
          \<and> pending s' = [] \<and> bulk_deletes s' = bulk_deletes s
          \<and> map clear_updated (tx s') = map (refreshed mapper rs) (tx s)"
  using assms
proof (induction rs arbitrary: s ids nu)
  case Nil
  then show ?case by (simp add: refreshed_def)
next
  case (Cons r rs)
  from Cons.prems(1) obtain i ids' where ids: "ids = i # ids'" and ri: "record_id r = Inr i"
    and rest: "map record_id rs = map Inr ids'"
    by (cases ids) auto
  have af0: "autoflush af utcnow s = Inr s" using Cons.prems(3) by simp
  have here: "i \<in> set (map odoo_id (tx s))" using Cons.prems(2) ids by simp
  let ?f = "\<lambda>x. x\<lparr>attrs := mapper r, updated_at := Some (utcnow (ticks s))\<rparr>"
  let ?s1 = "s\<lparr>tx := update_first i ?f (tx s), ticks := Suc (ticks s)\<rparr>"
  have step: "upsert af utcnow mapper r (s, ni, nu) = Inr (?s1, ni, Suc nu)"
    using upsert_eval [OF ri af0] here by simp
  have tx1: "tx ?s1 = map (\<lambda>x. if odoo_id x = i then ?f x else x) (tx s)"
    using update_first_distinct [OF Cons.prems(4)] by simp
  have k1: "map odoo_id (tx ?s1) = map odoo_id (tx s)" by simp
  have a2: "set ids' \<subseteq> set (map odoo_id (tx ?s1))" using Cons.prems(2) ids unfolding k1 by simp
  have a3: "pending ?s1 = []" using Cons.prems(3) by simp
  have a4: "distinct (map odoo_id (tx ?s1))" using Cons.prems(4) unfolding k1 .
  from Cons.IH [OF rest a2 a3 a4, of "Suc nu"] obtain s' where
    run: "upsert_loop af utcnow mapper rs (?s1, ni, Suc nu) = Inr (s', ni, Suc nu + length rs)"
    and p: "pending s' = []" and b: "bulk_deletes s' = bulk_deletes ?s1"
    and m: "map clear_updated (tx s') = map (refreshed mapper rs) (tx ?s1)"
    by blast
  have "map (refreshed mapper rs) (tx ?s1) = map (refreshed mapper (r # rs)) (tx s)"
    unfolding tx1 map_map by (rule map_cong [OF refl]) (simp add: refreshed_step [OF ri])
  with m have m': "map clear_updated (tx s') = map (refreshed mapper (r # rs)) (tx s)" by simp
  have "upsert_loop af utcnow mapper (r # rs) (s, ni, nu) = Inr (s', ni, nu + length (r # rs))"
    unfolding upsert_loop.simps step sum.case run by simp
  with p b m' show ?case by simp
qed

lemma refreshed_current:
  assumes "last_record rs (odoo_id x) = Some r" and "attrs x = mapper r"
  shows "refreshed mapper rs x = clear_updated x"
proof -
  have "x\<lparr>attrs := mapper r\<rparr> = x" using assms(2) [symmetric] by simp
  then show ?thesis using assms(1) by (simp add: refreshed_def)
qed

text \<open>The run that follows a run which returned the counts, on the same records.\<close>

lemma sync_rows_again:
  assumes ids: "map record_id rs = map Inr ids" and ne: "rs \<noteq> []"
    and keys: "set (map odoo_id T) = set ids" and dt: "distinct (map odoo_id T)"
    and cur: "\<forall>x \<in> set T. \<exists>r. last_record rs (odoo_id x) = Some r \<and> attrs x = mapper r"
  shows "\<exists>db'. sync_rows af utcnow mapper rs (SessionLocal T)
            = Inr (Synced \<lparr>inserted = 0, updated = length rs, deleted = 0, total = length rs\<rparr>, db')
          \<and> map clear_updated (committed db') = map clear_updated T
          \<and> bulk_deletes db' = []"
proof -
  let ?db = "SessionLocal T :: 'a session"
  have f: "fetched_odoo_ids rs = Inr (map PInt ids)" by (rule fetched_of_ids [OF ids])
  from upsert_loop_all_present [OF ids, of ?db af utcnow mapper 0 0] keys dt
  obtain db1 where l: "upsert_loop af utcnow mapper rs (?db, 0, 0) = Inr (db1, 0, length rs)"
    and p: "pending db1 = []" and b: "bulk_deletes db1 = []"
    and m: "map clear_updated (tx db1) = map (refreshed mapper rs) T"
    by auto
  have "map (refreshed mapper rs) T = map clear_updated T"
    by (rule map_cong [OF refl]) (use cur refreshed_current in blast)
  with m have m': "map clear_updated (tx db1) = map clear_updated T" by simp
  have D: "set (map odoo_id (tx ?db)) - set ids = {}" using keys by simp
  have c: "commit utcnow db1 = Inr (db1\<lparr>committed := tx db1\<rparr>)"
    using p by (simp add: commit_def)
  have "sync_rows af utcnow mapper rs ?db
        = Inr (Synced \<lparr>inserted = 0, updated = length rs, deleted = 0, total = length rs\<rparr>,
               db1\<lparr>committed := tx db1\<rparr>)"
    unfolding sync_rows_def Let_def f int_ids_PInt sum.case l prod.case D using ne c by simp
  moreover have "map clear_updated (committed (db1\<lparr>committed := tx db1\<rparr>)) = map clear_updated T"
    using m' by simp
  moreover have "bulk_deletes (db1\<lparr>committed := tx db1\<rparr>) = []" using b by simp
  ultimately show ?thesis by blast
qed

subsection \<open>Whether a run raises does not depend on the clock\<close>

lemma erase_keys:
  assumes "map erase_stamps xs = map erase_stamps ys"
  shows "map odoo_id xs = map odoo_id ys"
proof -
  have "map odoo_id xs = map odoo_id (map erase_stamps xs)"
    by (simp add: erase_stamps_def comp_def)
  also have "\<dots> = map odoo_id (map erase_stamps ys)" using assms by simp
  also have "\<dots> = map odoo_id ys" by (simp add: erase_stamps_def comp_def)
  finally show ?thesis .
qed

lemma erase_stamp [simp]: "map erase_stamps (stamp utcnow n xs) = map erase_stamps xs"
  by (induction xs arbitrary: n) (simp_all add: erase_stamps_def)

lemma erase_filter:
  "map erase_stamps (filter (\<lambda>x. odoo_id x \<notin> D) xs)
     = filter (\<lambda>x. odoo_id x \<notin> D) (map erase_stamps xs)"
  by (induction xs) (simp_all add: erase_stamps_def)

lemma erase_update_first:
  assumes "map erase_stamps xs = map erase_stamps ys"
  shows "map erase_stamps (update_first i (\<lambda>x. x\<lparr>attrs := a, updated_at := u\<rparr>) xs)
       = map erase_stamps (update_first i (\<lambda>x. x\<lparr>attrs := a, updated_at := u'\<rparr>) ys)"
  using assms
proof (induction xs arbitrary: ys)
  case Nil
  then show ?case by simp
next
  case (Cons x xs)
  then obtain y ys' where ys: "ys = y # ys'" and e: "erase_stamps x = erase_stamps y"
    and rest: "map erase_stamps xs = map erase_stamps ys'"
    by (cases ys) auto
  have k: "odoo_id x = odoo_id y"
    using arg_cong [OF e, of odoo_id] by (simp add: erase_stamps_def)
  have u: "erase_stamps (x\<lparr>attrs := a, updated_at := u\<rparr>) = erase_stamps (y\<lparr>attrs := a, updated_at := u'\<rparr>)"
    using e by (cases x; cases y) (simp add: erase_stamps_def)
  show ?case using Cons.IH [OF rest] rest ys e k u by simp
qed

lemma flush_sim:
  assumes "same_rows s t"
  shows "sim_result (flush c1 s) (flush c2 t)"
proof -
  have k: "map odoo_id (tx s) = map odoo_id (tx t)" "map odoo_id (pending s) = map odoo_id (pending t)"
    using assms by (auto simp: same_rows_def intro: erase_keys)
  show ?thesis
    using assms unfolding flush_def k sim_result_def same_rows_def by simp
qed

lemma autoflush_sim:
  assumes "same_rows s t"
  shows "sim_result (autoflush af c1 s) (autoflush af c2 t)"
  using flush_sim [OF assms, of c1 c2] assms
  by (cases af) (simp_all add: autoflush_def sim_result_def)

lemma sim_result_cases:
  assumes "sim_result a b"
  obtains (both_raise) e s e' t where "a = Inl (e, s)" "b = Inl (e', t)"
  | (both_return) s t where "a = Inr s" "b = Inr t" "same_rows s t"
  using assms unfolding sim_result_def by (cases a; cases b) auto

lemma sim_counted_cases:
  assumes "sim_counted a b"
  obtains (both_raise) e s e' t where "a = Inl (e, s)" "b = Inl (e', t)"
  | (both_return) s t ni nu where "a = Inr (s, ni, nu)" "b = Inr (t, ni, nu)" "same_rows s t"
  using assms unfolding sim_counted_def by (cases a; cases b) auto

lemma upsert_sim:
  assumes "same_rows s t"
  shows "sim_counted (upsert af c1 mapper r (s, ni, nu)) (upsert af c2 mapper r (t, ni, nu))"
proof (cases "record_id r")
  case (Inl e)
  then show ?thesis by (simp add: upsert_def sim_counted_def)
next
  case (Inr i)
  from autoflush_sim [OF assms, of af c1 c2] show ?thesis
  proof (cases rule: sim_result_cases)
    case (both_raise e s' e' t')
    then show ?thesis using Inr by (simp add: upsert_def sim_counted_def)
  next
    case (both_return s1 t1)
    have k: "map odoo_id (tx s1) = map odoo_id (tx t1)"
      using both_return(3) by (auto simp: same_rows_def intro: erase_keys)
    show ?thesis
    proof (cases "i \<in> set (map odoo_id (tx s1))")
      case True
      then have "i \<in> set (map odoo_id (tx t1))" using k by simp
      then show ?thesis
        using upsert_eval [OF Inr both_return(1), of mapper ni nu]
          upsert_eval [OF Inr both_return(2), of mapper ni nu] True both_return(3)
        by (simp add: sim_counted_def same_rows_def erase_update_first)
    next
      case False
      then have "i \<notin> set (map odoo_id (tx t1))" using k by simp
      then show ?thesis
        using upsert_eval [OF Inr both_return(1), of mapper ni nu]
          upsert_eval [OF Inr both_return(2), of mapper ni nu] False both_return(3)
        by (simp add: sim_counted_def same_rows_def erase_stamps_def)
    qed
  qed
qed

lemma upsert_loop_sim:
  assumes "same_rows s t"
  shows "sim_counted (upsert_loop af c1 mapper rs (s, ni, nu)) (upsert_loop af c2 mapper rs (t, ni, nu))"
  using assms
proof (induction rs arbitrary: s t ni nu)
  case Nil
  then show ?case by (simp add: sim_counted_def)
next
  case (Cons r rs)
  from upsert_sim [OF Cons.prems, of af c1 mapper r ni nu c2] show ?case
  proof (cases rule: sim_counted_cases)
    case (both_raise e s' e' t')
    then show ?thesis by (simp add: sim_counted_def)
  next
    case (both_return s1 t1 ni1 nu1)
    then show ?thesis using Cons.IH [OF both_return(3)] by simp
  qed
qed

lemma bulk_delete_sim:
  assumes "same_rows s t"
  shows "sim_result (bulk_delete af c1 D s) (bulk_delete af c2 D t)"
  using autoflush_sim [OF assms, of af c1 c2]
proof (cases rule: sim_result_cases)
  case (both_raise e s' e' t')
  then show ?thesis by (simp add: bulk_delete_def sim_result_def)
next
  case (both_return s1 t1)
  then show ?thesis
    by (simp add: bulk_delete_def sim_result_def same_rows_def erase_filter)
qed

lemma commit_sim:
  assumes "same_rows s t"
  shows "sim_result (commit c1 s) (commit c2 t)"
  using flush_sim [OF assms, of c1 c2]
proof (cases rule: sim_result_cases)
  case (both_raise e s' e' t')
  then show ?thesis by (simp add: commit_def sim_result_def)
next
  case (both_return s1 t1)
  then show ?thesis by (simp add: commit_def sim_result_def same_rows_def)
qed

lemma sync_rows_raises_again:
  assumes "sync_rows af c1 mapper rs db = Inl (e, db1)"
  shows "\<exists>e' db2. sync_rows af c2 mapper rs db = Inl (e', db2)"
proof (cases "rs = []")
  case True
  then show ?thesis using assms by (simp add: sync_rows_def)
next
  case False
  show ?thesis
  proof (cases "fetched_odoo_ids rs")
    case (Inl a)
    then show ?thesis using False by (simp add: sync_rows_def)
  next
    case (Inr fetched)
    note f = Inr
    define D where "D = set (map odoo_id (tx db)) - set (int_ids fetched)"
    have refl: "same_rows db db" by (simp add: same_rows_def)
    have unfold: "sync_rows af c mapper rs db =
       (case upsert_loop af c mapper rs (db, 0, 0) of
          Inl e \<Rightarrow> Inl e
        | Inr (db1, n_inserted, n_updated) \<Rightarrow>
            (case (if D \<noteq> {} then bulk_delete af c D db1 else Inr db1) of
               Inl e \<Rightarrow> Inl e
             | Inr db2 \<Rightarrow>
                 (case commit c db2 of
                    Inl e \<Rightarrow> Inl e
                  | Inr db3 \<Rightarrow> Inr (Synced \<lparr>inserted = n_inserted, updated = n_updated,
                                     deleted = card D, total = length rs\<rparr>, db3))))" for c
      using False f unfolding sync_rows_def Let_def D_def by simp
    from upsert_loop_sim [OF refl, of af c1 mapper rs 0 0 c2] show ?thesis
    proof (cases rule: sim_counted_cases)
      case (both_raise e1 s1 e2 s2)
      then show ?thesis unfolding unfold [of c2] by simp
    next
      case (both_return s1 t1 ni nu)
      note loop = both_return
      have del: "sim_result (if D \<noteq> {} then bulk_delete af c1 D s1 else Inr s1)
                            (if D \<noteq> {} then bulk_delete af c2 D t1 else Inr t1)"
        using bulk_delete_sim [OF loop(3), of af c1 D c2] loop(3) by (simp add: sim_result_def)
      from del show ?thesis
      proof (cases rule: sim_result_cases)
        case (both_raise e1 s1' e2 s2')
        then show ?thesis unfolding unfold [of c2] loop(2) by simp
      next
        case (both_return s2 t2)
        note del' = both_return
        from commit_sim [OF del'(3), of c1 c2] show ?thesis
        proof (cases rule: sim_result_cases)
          case (both_raise e1 s1' e2 s2')
          then show ?thesis unfolding unfold [of c2] loop(2) using del'(2) by simp
        next
          case (both_return s3 t3)
          then have "sync_rows af c1 mapper rs db
                = Inr (Synced \<lparr>inserted = ni, updated = nu, deleted = card D,
                                 total = length rs\<rparr>, s3)"
            unfolding unfold [of c1] loop(1) using del'(1) by simp
          then show ?thesis using assms by simp
        qed
      qed
    qed
  qed
qed

subsection \<open>Two runs in a row\<close>

lemma run_sync_twice:
  assumes d: "distinct (map odoo_id table)"
    and run1: "run_sync af c1 mapper (Some (Inr rs, w1)) table = Some (out1, w1', db1)"
  shows "\<exists>out2 db2.
      run_sync af c2 mapper (Some (Inr rs, w2)) (committed db1) = Some (out2, w2, db2) \<and>
      map clear_updated (committed db2) = map clear_updated (committed db1) \<and>
      (\<forall>res. out2 = Inr (Synced res) \<longrightarrow>
         inserted res = 0 \<and> deleted res = 0 \<and> bulk_deletes db2 = []) \<and>
      (\<forall>res1. out1 = Inr (Synced res1) \<longrightarrow>
         out2 = Inr (Synced \<lparr>inserted = 0, updated = length rs, deleted = 0,
                              total = length rs\<rparr>))"
  using run1
proof (cases rule: run_sync_cases)
  case (fetch_error e)
  then show ?thesis by simp
next
  case nothing
  then show ?thesis by (simp add: run_sync_def sync_rows_def)
next
  case (error rs' e)
  then have rs: "rs' = rs" and ne: "rs \<noteq> []" and t: "committed db1 = table" by simp_all
  obtain e1 dbe where "sync_rows af c1 mapper rs (SessionLocal table) = Inl (e1, dbe)"
    using run1 error(3) by (auto simp: run_sync_def split: sum.splits prod.splits)
  from sync_rows_raises_again [OF this, of c2]
  obtain e2 db2 where s2: "sync_rows af c2 mapper rs (SessionLocal table) = Inl (e2, db2)"
    by blast
  have "committed db2 = table"
    using sync_rows_Inl_committed [OF s2] by simp
  then show ?thesis using s2 t error(3) by (simp add: run_sync_def)
next
  case (synced rs' res dbc)
  then have ne: "rs \<noteq> []"
    and s1: "sync_rows af c1 mapper rs (SessionLocal table) = Inr (res, dbc)"
    and db1: "db1 = close dbc" by simp_all
  from s1 ne obtain ids ni nu where ids: "map record_id rs = map Inr ids"
    and keys: "set (map odoo_id (committed dbc)) = set ids"
    and dist': "distinct (map odoo_id (tx (SessionLocal table))) \<Longrightarrow>
                 distinct (map odoo_id (committed dbc))"
    and cur0: "distinct (map odoo_id (tx (SessionLocal table))) \<Longrightarrow>
         \<forall>x \<in> set (committed dbc). \<forall>r. last_record rs (odoo_id x) = Some r
            \<longrightarrow> attrs x = mapper r"
    by (rule sync_rows_Synced) auto
  have dist: "distinct (map odoo_id (committed dbc))" using dist' d by simp
  have cur: "\<forall>x \<in> set (committed dbc). \<forall>r. last_record rs (odoo_id x) = Some r
                 \<longrightarrow> attrs x = mapper r"
    using cur0 d by simp
  have cur': "\<forall>x \<in> set (committed dbc).
                \<exists>r. last_record rs (odoo_id x) = Some r \<and> attrs x = mapper r"
  proof
    fix x assume x: "x \<in> set (committed dbc)"
    then have "odoo_id x \<in> set ids" using keys by force
    then have "Inr (odoo_id x) \<in> set (map record_id rs)" unfolding ids by simp
    then have "last_record rs (odoo_id x) \<noteq> None"
      unfolding last_record_None by force
    then obtain r where "last_record rs (odoo_id x) = Some r" by blast
    then show "\<exists>r. last_record rs (odoo_id x) = Some r \<and> attrs x = mapper r"
      using cur x by blast
  qed
  from sync_rows_again [OF ids ne keys dist cur', of af c2]
  obtain db' where s2: "sync_rows af c2 mapper rs (SessionLocal (committed dbc))
      = Inr (Synced \<lparr>inserted = 0, updated = length rs, deleted = 0, total = length rs\<rparr>, db')"
    and same: "map clear_updated (committed db') = map clear_updated (committed dbc)"
    and nodel: "bulk_deletes db' = []"
    by blast
  show ?thesis using s2 same nodel db1 by (simp add: run_sync_def)
qed

text \<open>
  C3.  Two runs in succession on identical remote data: both fetches return the same
  records \<open>rs\<close>, whose keys are integers, and the second run starts from the table the
  first one committed (no other writer), with a clock of its own.  Whatever the first
  run returned, the second run returns, and the table it leaves is the table it started
  from, row by row, the \<open>updated_at\<close> stamps apart: no row is inserted, none is
  deleted, no other column changes.  If the second run returns the counts, it reports
  zero inserts and zero deletes and has issued no DELETE; and it does return the counts,
  all the fetched records as updates, whenever the first run did.  For a table with
  unique keys, as the unique index guarantees; for the contacts and for the invoices.
\<close>

theorem C3_second_run_idempotent:
  "(map record_id rs = map Inr ids \<and>
    distinct (map odoo_id contacts) \<and>
    get_all_contacts get_contacts w = Some (Inr rs, w1) \<and>
    get_all_contacts get_contacts w1 = Some (Inr rs, w2) \<and>
    sync_contacts_async get_contacts af utcnow fromisoformat w contacts = Some (out1, w1, db1)
    \<longrightarrow>
    (\<exists>out2 db2.
      sync_contacts_async get_contacts af utcnow2 fromisoformat w1 (committed db1)
        = Some (out2, w2, db2) \<and>
      map clear_updated (committed db2) = map clear_updated (committed db1) \<and>
      (\<forall>res. out2 = Inr (Synced res) \<longrightarrow>
         inserted res = 0 \<and> deleted res = 0 \<and> bulk_deletes db2 = []) \<and>
      (\<forall>res1. out1 = Inr (Synced res1) \<longrightarrow>
         out2 = Inr (Synced \<lparr>inserted = 0, updated = length rs, deleted = 0,
                              total = length rs\<rparr>))))
   \<and>
   (map record_id qs = map Inr jds \<and>
    distinct (map odoo_id invoices) \<and>
    get_all_invoices get_invoices v = Some (Inr qs, v1) \<and>
    get_all_invoices get_invoices v1 = Some (Inr qs, v2) \<and>
    sync_invoices_async get_invoices af utcnow fromisoformat v invoices = Some (out3, v1, db3)
    \<longrightarrow>
    (\<exists>out4 db4.
      sync_invoices_async get_invoices af utcnow2 fromisoformat v1 (committed db3)
        = Some (out4, v2, db4) \<and>
      map clear_updated (committed db4) = map clear_updated (committed db3) \<and>
      (\<forall>res. out4 = Inr (Synced res) \<longrightarrow>
         inserted res = 0 \<and> deleted res = 0 \<and> bulk_deletes db4 = []) \<and>
      (\<forall>res1. out3 = Inr (Synced res1) \<longrightarrow>
         out4 = Inr (Synced \<lparr>inserted = 0, updated = length qs, deleted = 0,
                              total = length qs\<rparr>))))"
proof (rule conjI; rule impI; elim conjE)
  assume ids: "map record_id rs = map Inr ids"
    and d: "distinct (map odoo_id contacts)"
    and f1: "get_all_contacts get_contacts w = Some (Inr rs, w1)"
    and f2: "get_all_contacts get_contacts w1 = Some (Inr rs, w2)"
    and run: "sync_contacts_async get_contacts af utcnow fromisoformat w contacts
                = Some (out1, w1, db1)"
  have "run_sync af utcnow (contact_mapper fromisoformat) (Some (Inr rs, w1)) contacts
          = Some (out1, w1, db1)"
    using run unfolding sync_contacts_async_def f1 .
  from run_sync_twice [OF d this, of utcnow2 w2]
  show "\<exists>out2 db2.
      sync_contacts_async get_contacts af utcnow2 fromisoformat w1 (committed db1)
        = Some (out2, w2, db2) \<and>
      map clear_updated (committed db2) = map clear_updated (committed db1) \<and>
      (\<forall>res. out2 = Inr (Synced res) \<longrightarrow>
         inserted res = 0 \<and> deleted res = 0 \<and> bulk_deletes db2 = []) \<and>
      (\<forall>res1. out1 = Inr (Synced res1) \<longrightarrow>
         out2 = Inr (Synced \<lparr>inserted = 0, updated = length rs, deleted = 0,
                              total = length rs\<rparr>))"
    unfolding sync_contacts_async_def f2 .
next
  assume ids: "map record_id qs = map Inr jds"
    and d: "distinct (map odoo_id invoices)"
    and f1: "get_all_invoices get_invoices v = Some (Inr qs, v1)"
    and f2: "get_all_invoices get_invoices v1 = Some (Inr qs, v2)"
    and run: "sync_invoices_async get_invoices af utcnow fromisoformat v invoices
                = Some (out3, v1, db3)"
  have "run_sync af utcnow (invoice_mapper fromisoformat) (Some (Inr qs, v1)) invoices
          = Some (out3, v1, db3)"
    using run unfolding sync_invoices_async_def f1 .
  from run_sync_twice [OF d this, of utcnow2 v2]
  show "\<exists>out4 db4.
      sync_invoices_async get_invoices af utcnow2 fromisoformat v1 (committed db3)
        = Some (out4, v2, db4) \<and>
      map clear_updated (committed db4) = map clear_updated (committed db3) \<and>
      (\<forall>res. out4 = Inr (Synced res) \<longrightarrow>
         inserted res = 0 \<and> deleted res = 0 \<and> bulk_deletes db4 = []) \<and>
      (\<forall>res1. out3 = Inr (Synced res1) \<longrightarrow>
         out4 = Inr (Synced \<lparr>inserted = 0, updated = length qs, deleted = 0,
                              total = length qs\<rparr>))"
    unfolding sync_invoices_async_def f2 .
qed

text \<open>The fetch of a short list from any state of the remote side.\<close>

lemma get_all_loop_one_page_from:
  "length records < 100 \<Longrightarrow>
   get_all_loop (static_remote records) 100 w 0 [] = Some (Inr records, w @ [0])"
  using get_all_loop_stop [where get_page = "static_remote records" and w = w and limit = 100
      and offset = 0 and page = records and w' = "w @ [0]" and acc = "[]"]
  by (simp add: static_remote_def)

theorem C3_second_run_idempotent_witness:
  "\<exists>db1 db2 db3 db4.
     sync_contacts_async (static_remote demo_contacts) False demo_utcnow demo_fromisoformat []
         demo_contact_table
       = Some (Inr (Synced \<lparr>inserted = 1, updated = 2, deleted = 1, total = 3\<rparr>), [0], db1) \<and>
     sync_contacts_async (static_remote demo_contacts) False (\<lambda>n. 2000 + int n)
         demo_fromisoformat [0] (committed db1)
       = Some (Inr (Synced \<lparr>inserted = 0, updated = 3, deleted = 0, total = 3\<rparr>), [0, 0], db2) \<and>
     map clear_updated (committed db2) = map clear_updated (committed db1) \<and>
     bulk_deletes db2 = [] \<and>
     sync_invoices_async (static_remote [demo_invoice 7]) False demo_utcnow demo_fromisoformat []
         [demo_invoice_row 7, demo_invoice_row 8]
       = Some (Inr (Synced \<lparr>inserted = 0, updated = 1, deleted = 1, total = 1\<rparr>), [0], db3) \<and>
     sync_invoices_async (static_remote [demo_invoice 7]) False (\<lambda>n. 2000 + int n)
         demo_fromisoformat [0] (committed db3)
       = Some (Inr (Synced \<lparr>inserted = 0, updated = 1, deleted = 0, total = 1\<rparr>), [0, 0], db4) \<and>
     map clear_updated (committed db4) = map clear_updated (committed db3) \<and>
     bulk_deletes db4 = []"
proof -
  obtain dbc where c1: "sync_contacts_async (static_remote demo_contacts) False demo_utcnow
        demo_fromisoformat [] demo_contact_table
      = Some (Inr (Synced \<lparr>inserted = 1, updated = 2, deleted = 1, total = 3\<rparr>), [0], dbc)"
    using demo_run [of False] unfolding demo_contacts_def demo_contact_table_def by blast
  obtain dbi where i1: "sync_invoices_async (static_remote [demo_invoice 7]) False demo_utcnow
        demo_fromisoformat [] [demo_invoice_row 7, demo_invoice_row 8]
      = Some (Inr (Synced \<lparr>inserted = 0, updated = 1, deleted = 1, total = 1\<rparr>), [0], dbi)"
    using demo_invoice_run [of False] by blast
  have fc: "get_all_contacts (static_remote demo_contacts) [] = Some (Inr demo_contacts, [0])"
    "get_all_contacts (static_remote demo_contacts) [0] = Some (Inr demo_contacts, [0, 0])"
    by (simp_all add: get_all_contacts_def get_all_loop_one_page_from demo_contacts_def)
  have fi: "get_all_invoices (static_remote [demo_invoice 7]) [] = Some (Inr [demo_invoice 7], [0])"
    "get_all_invoices (static_remote [demo_invoice 7]) [0] = Some (Inr [demo_invoice 7], [0, 0])"
    by (simp_all add: get_all_invoices_def get_all_loop_one_page_from)
  have dc: "distinct (map odoo_id demo_contact_table)"
    by (simp add: demo_contact_table_def demo_contact_row_def)
  have di: "distinct (map odoo_id [demo_invoice_row 7, demo_invoice_row 8])"
    by (simp add: demo_invoice_row_def)
  have ic: "map record_id demo_contacts = map Inr [1, 2, 3]"
    by (simp add: demo_contacts_def demo_contact_def record_id_def)
  have ii: "map record_id [demo_invoice 7] = map Inr [7]"
    by (simp add: record_id_def demo_invoice_id)
  note inst = C3_second_run_idempotent [where contacts = demo_contact_table
      and ids = "[1, 2, 3]" and jds = "[7]"
      and get_contacts = "static_remote demo_contacts" and w = "[]" and rs = demo_contacts
      and ?w1.0 = "[0]" and ?w2.0 = "[0, 0]" and af = False and utcnow = demo_utcnow
      and fromisoformat = demo_fromisoformat
      and ?out1.0 = "Inr (Synced \<lparr>inserted = 1, updated = 2, deleted = 1, total = 3\<rparr>)"
      and ?db1.0 = dbc and ?utcnow2.0 = "\<lambda>n. 2000 + int n"
      and invoices = "[demo_invoice_row 7, demo_invoice_row 8]"
      and get_invoices = "static_remote [demo_invoice 7]" and v = "[]" and qs = "[demo_invoice 7]"
      and ?v1.0 = "[0]" and ?v2.0 = "[0, 0]"
      and ?out3.0 = "Inr (Synced \<lparr>inserted = 0, updated = 1, deleted = 1, total = 1\<rparr>)"
      and ?db3.0 = dbi]
  have "map record_id demo_contacts = map Inr [1, 2, 3] \<and>
    distinct (map odoo_id demo_contact_table) \<and>
    get_all_contacts (static_remote demo_contacts) [] = Some (Inr demo_contacts, [0]) \<and>
    get_all_contacts (static_remote demo_contacts) [0] = Some (Inr demo_contacts, [0, 0]) \<and>
    sync_contacts_async (static_remote demo_contacts) False demo_utcnow demo_fromisoformat []
        demo_contact_table
      = Some (Inr (Synced \<lparr>inserted = 1, updated = 2, deleted = 1, total = 3\<rparr>), [0], dbc)"
    using ic dc fc c1 by blast
  from inst [THEN conjunct1, THEN mp, OF this]
  obtain out2 db2 where
    r2: "sync_contacts_async (static_remote demo_contacts) False (\<lambda>n. 2000 + int n)
           demo_fromisoformat [0] (committed dbc) = Some (out2, [0, 0], db2)"
    and m2: "map clear_updated (committed db2) = map clear_updated (committed dbc)"
    and z2: "\<forall>res. out2 = Inr (Synced res) \<longrightarrow>
               inserted res = 0 \<and> deleted res = 0 \<and> bulk_deletes db2 = []"
    and o2: "out2 = Inr (Synced \<lparr>inserted = 0, updated = length demo_contacts, deleted = 0,
                                  total = length demo_contacts\<rparr>)"
    by blast
  have "map record_id [demo_invoice 7] = map Inr [7] \<and>
    distinct (map odoo_id [demo_invoice_row 7, demo_invoice_row 8]) \<and>
    get_all_invoices (static_remote [demo_invoice 7]) [] = Some (Inr [demo_invoice 7], [0]) \<and>
    get_all_invoices (static_remote [demo_invoice 7]) [0] = Some (Inr [demo_invoice 7], [0, 0]) \<and>
    sync_invoices_async (static_remote [demo_invoice 7]) False demo_utcnow demo_fromisoformat []
        [demo_invoice_row 7, demo_invoice_row 8]
      = Some (Inr (Synced \<lparr>inserted = 0, updated = 1, deleted = 1, total = 1\<rparr>), [0], dbi)"
    using ii di fi i1 by blast
  from inst [THEN conjunct2, THEN mp, OF this]
  obtain out4 db4 where
    r4: "sync_invoices_async (static_remote [demo_invoice 7]) False (\<lambda>n. 2000 + int n)
           demo_fromisoformat [0] (committed dbi) = Some (out4, [0, 0], db4)"
    and m4: "map clear_updated (committed db4) = map clear_updated (committed dbi)"
    and z4: "\<forall>res. out4 = Inr (Synced res) \<longrightarrow>
               inserted res = 0 \<and> deleted res = 0 \<and> bulk_deletes db4 = []"
    and o4: "out4 = Inr (Synced \<lparr>inserted = 0, updated = length [demo_invoice 7], deleted = 0,
                                  total = length [demo_invoice 7]\<rparr>)"
    by blast
  have b2: "bulk_deletes db2 = []" using z2 o2 by blast
  have b4: "bulk_deletes db4 = []" using z4 o4 by blast
  have l: "length demo_contacts = 3" "length [demo_invoice 7] = 1"
    by (simp_all add: demo_contacts_def)
  show ?thesis
    using c1 r2 m2 b2 i1 r4 m4 b4 o2 o4 unfolding l by blast
qed

end
